theory Spec2Isabelle
  imports Main "HOL-Library.Word" "HOL-Library.Signed_Division"
begin

unbundle bit_operations_syntax

section \<open>Regal GL_QUADS emulation layer (src/regal/RegalQuads.cpp)\<close>

subsection \<open>Machine types\<close>

text \<open>
  The GL scalar types of the source. \<open>GLint\<close> and \<open>GLsizei\<close> are 32-bit two's complement
  integers, read with \<open>sint\<close> and compared with \<open>\<le>s\<close> and \<open><s\<close>; \<open>GLenum\<close> and \<open>GLuint\<close>
  are 32-bit unsigned. Mixed \<open>GLint + GLuint\<close> arithmetic, as in \<open>first + ii * 4 + 0\<close>, is
  unsigned arithmetic modulo \<open>2 ^ 32\<close> in C++, which is \<open>+\<close> and \<open>*\<close> on \<open>32 word\<close>.
\<close>

type_synonym GLenum = "32 word"
type_synonym GLuint = "32 word"
type_synonym GLint = "32 word"
type_synonym GLsizei = "32 word"
type_synonym GLboolean = "8 word"

text \<open>C++ division of two \<open>int\<close>s truncates towards zero.\<close>

definition c_div :: "GLsizei \<Rightarrow> GLsizei \<Rightarrow> GLsizei" where
  "c_div a b = word_of_int (sint a sdiv sint b)"

subsection \<open>Tokens\<close>

text \<open>
  Modelled from the spec: the numeric values of the GL tokens are declared in GL/Regal.h,
  which is not part of the translation unit at hand. The specification names the tokens and
  treats them as pairwise different members of their enumerations; the values below are the
  ones the OpenGL registry assigns to these names.
\<close>

definition GL_POINTS :: GLenum where "GL_POINTS = 0x0000"
definition GL_LINES :: GLenum where "GL_LINES = 0x0001"
definition GL_TRIANGLES :: GLenum where "GL_TRIANGLES = 0x0004"
definition GL_QUADS :: GLenum where "GL_QUADS = 0x0007"
definition GL_QUAD_STRIP :: GLenum where "GL_QUAD_STRIP = 0x0008"
definition GL_FRONT :: GLenum where "GL_FRONT = 0x0404"
definition GL_BACK :: GLenum where "GL_BACK = 0x0405"
definition GL_FRONT_AND_BACK :: GLenum where "GL_FRONT_AND_BACK = 0x0408"
definition GL_CW :: GLenum where "GL_CW = 0x0900"
definition GL_CCW :: GLenum where "GL_CCW = 0x0901"
definition GL_CULL_FACE :: GLenum where "GL_CULL_FACE = 0x0B44"
definition GL_UNSIGNED_INT :: GLenum where "GL_UNSIGNED_INT = 0x1405"
definition GL_POINT :: GLenum where "GL_POINT = 0x1B00"
definition GL_LINE :: GLenum where "GL_LINE = 0x1B01"
definition GL_FILL :: GLenum where "GL_FILL = 0x1B02"
definition GL_FLAT :: GLenum where "GL_FLAT = 0x1D00"
definition GL_SMOOTH :: GLenum where "GL_SMOOTH = 0x1D01"
definition GL_ELEMENT_ARRAY_BUFFER :: GLenum where "GL_ELEMENT_ARRAY_BUFFER = 0x8893"
definition GL_STATIC_DRAW :: GLenum where "GL_STATIC_DRAW = 0x88E4"
definition GL_FIRST_VERTEX_CONVENTION :: GLenum where "GL_FIRST_VERTEX_CONVENTION = 0x8E4D"
definition GL_LAST_VERTEX_CONVENTION :: GLenum where "GL_LAST_VERTEX_CONVENTION = 0x8E4E"
definition GL_TRUE :: GLboolean where "GL_TRUE = 1"

lemmas gl_tokens =
  GL_POINTS_def GL_LINES_def GL_TRIANGLES_def GL_QUADS_def GL_QUAD_STRIP_def
  GL_FRONT_def GL_BACK_def GL_FRONT_AND_BACK_def GL_CW_def GL_CCW_def GL_CULL_FACE_def
  GL_UNSIGNED_INT_def GL_POINT_def GL_LINE_def GL_FILL_def GL_FLAT_def GL_SMOOTH_def
  GL_ELEMENT_ARRAY_BUFFER_def GL_STATIC_DRAW_def
  GL_FIRST_VERTEX_CONVENTION_def GL_LAST_VERTEX_CONVENTION_def GL_TRUE_def

text \<open>\<open>#define EMU_QUADS_BUFFER_SIZE 1024\<close>\<close>

definition EMU_QUADS_BUFFER_SIZE :: GLsizei where
  "EMU_QUADS_BUFFER_SIZE = 1024"

subsection \<open>The fields of \<open>Emu::Quads\<close>\<close>

record Quads =
  elementArrayBuffer :: GLuint
  quadIndexBuffer :: GLuint
  windingMode :: GLenum
  frontFaceMode :: GLenum
  backFaceMode :: GLenum
  shadeMode :: GLenum
  provokeMode :: GLenum
  cullFace :: GLenum
  gl_quads_follow_provoking_vertex_convention :: bool
  cullingFaces :: bool

subsection \<open>Calls into the next dispatch layer\<close>

text \<open>
  Every \<open>d.call(&d.glX)(...)\<close> of the source is one event of a trace, in program order.
  The last argument of \<open>glDrawElements\<close> is either a byte offset into the bound element
  buffer (the triangle paths pass \<open>0\<close>) or the address of the local \<open>indices\<close> array (the
  line paths); for the latter the event carries the entries the call reads. \<open>glBufferData\<close>
  carries the \<open>n * 6\<close> entries it uploads. \<open>DeleteBuffers\<close> is an entry of the dispatch table
  that this translation unit never calls.
\<close>

datatype index_source = BufferOffset nat | ClientArray "GLuint list"

datatype gl_call =
    GenBuffers GLsizei
  | DeleteBuffers "GLuint list"
  | PolygonMode GLenum GLenum
  | BindBuffer GLenum GLuint
  | BufferData GLenum GLsizei "GLuint list" GLenum
  | DrawElements GLenum GLsizei GLenum index_source
  | DrawArrays GLenum GLint GLsizei

subsection \<open>Init and Cleanup\<close>

text \<open>
  \<open>Quads::Init\<close>: \<open>info_convention\<close> is \<open>ctx.info->gl_quads_follow_provoking_vertex_convention\<close>,
  \<open>name\<close> is the buffer name that the driver's \<open>glGenBuffers\<close> stores into
  \<open>quadIndexBuffer\<close>.
\<close>

definition Init :: "GLboolean \<Rightarrow> GLuint \<Rightarrow> Quads \<times> gl_call list" where
  "Init info_convention name =
     (\<lparr> elementArrayBuffer = 0,
        quadIndexBuffer = name,
        windingMode = GL_CCW,
        frontFaceMode = GL_FILL,
        backFaceMode = GL_FILL,
        shadeMode = GL_SMOOTH,
        provokeMode = GL_LAST_VERTEX_CONVENTION,
        cullFace = GL_BACK,
        gl_quads_follow_provoking_vertex_convention = (info_convention = GL_TRUE),
        cullingFaces = False \<rparr>,
      [GenBuffers 1])"

text \<open>\<open>Quads::Cleanup\<close>: the body is \<open>UNUSED_PARAMETER(ctx);\<close> and nothing else.\<close>

definition Cleanup :: "Quads \<Rightarrow> Quads \<times> gl_call list" where
  "Cleanup q = (q, [])"

subsection \<open>State setters\<close>

definition glBindBuffer :: "Quads \<Rightarrow> GLenum \<Rightarrow> GLuint \<Rightarrow> Quads" where
  "glBindBuffer q target buffer =
     (if target = GL_ELEMENT_ARRAY_BUFFER then q\<lparr>elementArrayBuffer := buffer\<rparr> else q)"

definition glFrontFace :: "Quads \<Rightarrow> GLenum \<Rightarrow> Quads" where
  "glFrontFace q mode =
     (if mode = GL_CW \<or> mode = GL_CCW then q\<lparr>windingMode := mode\<rparr> else q)"

definition glPolygonMode :: "Quads \<Rightarrow> GLenum \<Rightarrow> GLenum \<Rightarrow> Quads" where
  "glPolygonMode q f m =
     (if f = GL_FRONT then q\<lparr>frontFaceMode := m\<rparr>
      else if f = GL_BACK then q\<lparr>backFaceMode := m\<rparr>
      else if f = GL_FRONT_AND_BACK then q\<lparr>frontFaceMode := m, backFaceMode := m\<rparr>
      else q)"

definition glShadeModel :: "Quads \<Rightarrow> GLenum \<Rightarrow> Quads" where
  "glShadeModel q mode =
     (if mode = GL_SMOOTH \<or> mode = GL_FLAT then q\<lparr>shadeMode := mode\<rparr> else q)"

definition glProvokingVertex :: "Quads \<Rightarrow> GLenum \<Rightarrow> Quads" where
  "glProvokingVertex q mode =
     (if mode = GL_FIRST_VERTEX_CONVENTION \<or> mode = GL_LAST_VERTEX_CONVENTION
      then q\<lparr>provokeMode := mode\<rparr> else q)"

definition glCullFace :: "Quads \<Rightarrow> GLenum \<Rightarrow> Quads" where
  "glCullFace q face =
     (if face = GL_FRONT \<or> face = GL_BACK \<or> face = GL_FRONT_AND_BACK
      then q\<lparr>cullFace := face\<rparr> else q)"

definition glEnable :: "Quads \<Rightarrow> GLenum \<Rightarrow> Quads" where
  "glEnable q cap = (if cap = GL_CULL_FACE then q\<lparr>cullingFaces := True\<rparr> else q)"

definition glDisable :: "Quads \<Rightarrow> GLenum \<Rightarrow> Quads" where
  "glDisable q cap = (if cap = GL_CULL_FACE then q\<lparr>cullingFaces := False\<rparr> else q)"

subsection \<open>Index generation\<close>

text \<open>
  The local array \<open>indices\<close> is modelled by the list of the entries written so far: the
  source fills it front to back, and never reads an entry it has not written. The loop
  \<open>for (GLuint ii=0; ii<static_cast<GLuint>(n); ii++)\<close> whose body stores a block of
  consecutive entries appends the block of iteration \<open>ii\<close> to the list.
\<close>

fun for_ii :: "(GLuint \<Rightarrow> GLuint list) \<Rightarrow> nat \<Rightarrow> GLuint list" where
  "for_ii body 0 = []"
| "for_ii body (Suc k) = for_ii body k @ body (of_nat k)"

text \<open>Quad strips into triangles: the three loop bodies (the \<open>#if 1\<close> branch for smooth).\<close>

definition strip_tri_smooth :: "GLint \<Rightarrow> GLuint \<Rightarrow> GLuint list" where
  "strip_tri_smooth first ii =
     [first + ii * 2 + 1, first + ii * 2 + 3, first + ii * 2 + 0,
      first + ii * 2 + 2, first + ii * 2 + 0, first + ii * 2 + 3]"

definition strip_tri_flat_last :: "GLint \<Rightarrow> GLuint \<Rightarrow> GLuint list" where
  "strip_tri_flat_last first ii =
     [first + ii * 2 + 0, first + ii * 2 + 1, first + ii * 2 + 3,
      first + ii * 2 + 2, first + ii * 2 + 0, first + ii * 2 + 3]"

definition strip_tri_flat_first :: "GLint \<Rightarrow> GLuint \<Rightarrow> GLuint list" where
  "strip_tri_flat_first first ii =
     [first + ii * 2 + 1, first + ii * 2 + 3, first + ii * 2 + 0,
      first + ii * 2 + 3, first + ii * 2 + 2, first + ii * 2 + 0]"

definition strip_tri_indices :: "Quads \<Rightarrow> GLint \<Rightarrow> GLsizei \<Rightarrow> GLuint list" where
  "strip_tri_indices q first n =
     (if shadeMode q \<noteq> GL_FLAT then for_ii (strip_tri_smooth first) (unat n)
      else if \<not> gl_quads_follow_provoking_vertex_convention q
              \<or> provokeMode q = GL_LAST_VERTEX_CONVENTION
      then for_ii (strip_tri_flat_last first) (unat n)
      else for_ii (strip_tri_flat_first first) (unat n))"

text \<open>Quads into triangles.\<close>

definition quads_tri_smooth :: "GLint \<Rightarrow> GLuint \<Rightarrow> GLuint list" where
  "quads_tri_smooth first ii =
     [first + ii * 4 + 0, first + ii * 4 + 1, first + ii * 4 + 2,
      first + ii * 4 + 3, first + ii * 4 + 0, first + ii * 4 + 2]"

definition quads_tri_flat_last :: "GLint \<Rightarrow> GLuint \<Rightarrow> GLuint list" where
  "quads_tri_flat_last first ii =
     [first + ii * 4 + 0, first + ii * 4 + 1, first + ii * 4 + 3,
      first + ii * 4 + 1, first + ii * 4 + 2, first + ii * 4 + 3]"

definition quads_tri_flat_first :: "GLint \<Rightarrow> GLuint \<Rightarrow> GLuint list" where
  "quads_tri_flat_first first ii =
     [first + ii * 4 + 1, first + ii * 4 + 2, first + ii * 4 + 0,
      first + ii * 4 + 2, first + ii * 4 + 3, first + ii * 4 + 0]"

definition quads_tri_indices :: "Quads \<Rightarrow> GLint \<Rightarrow> GLsizei \<Rightarrow> GLuint list" where
  "quads_tri_indices q first n =
     (if shadeMode q \<noteq> GL_FLAT then for_ii (quads_tri_smooth first) (unat n)
      else if \<not> gl_quads_follow_provoking_vertex_convention q
              \<or> provokeMode q = GL_LAST_VERTEX_CONVENTION
      then for_ii (quads_tri_flat_last first) (unat n)
      else for_ii (quads_tri_flat_first first) (unat n))"

text \<open>
  Quad strips into outlines. The first variant stores its two closing entries at
  \<open>n * 6 + 0\<close> and \<open>n * 6 + 1\<close> after the loop; the other variant stores \<open>indices[0]\<close> and
  \<open>indices[1]\<close> before the loop, whose body then writes \<open>ii * 6 + 2\<close> to \<open>ii * 6 + 7\<close>.
\<close>

definition strip_line_first :: "GLint \<Rightarrow> GLuint \<Rightarrow> GLuint list" where
  "strip_line_first first ii =
     [first + ii * 2 + 3, first + ii * 2 + 1, first + ii * 2 + 1,
      first + ii * 2 + 0, first + ii * 2 + 2, first + ii * 2 + 0]"

definition strip_line_other :: "GLint \<Rightarrow> GLuint \<Rightarrow> GLuint list" where
  "strip_line_other first ii =
     [first + ii * 2 + 0, first + ii * 2 + 2, first + ii * 2 + 2,
      first + ii * 2 + 3, first + ii * 2 + 1, first + ii * 2 + 3]"

definition strip_line_indices :: "Quads \<Rightarrow> GLint \<Rightarrow> GLsizei \<Rightarrow> GLuint list" where
  "strip_line_indices q first n =
     (if shadeMode q = GL_FLAT \<and> gl_quads_follow_provoking_vertex_convention q
         \<and> provokeMode q = GL_FIRST_VERTEX_CONVENTION
      then for_ii (strip_line_first first) (unat n) @ [first + n * 2 + 1, first + n * 2 + 0]
      else [first + 0, first + 1] @ for_ii (strip_line_other first) (unat n))"

text \<open>Quads into outlines.\<close>

definition quads_line_first :: "GLint \<Rightarrow> GLuint \<Rightarrow> GLuint list" where
  "quads_line_first first ii =
     [first + ii * 4 + 0, first + ii * 4 + 1, first + ii * 4 + 0, first + ii * 4 + 3,
      first + ii * 4 + 1, first + ii * 4 + 2, first + ii * 4 + 3, first + ii * 4 + 2]"

definition quads_line_other :: "GLint \<Rightarrow> GLuint \<Rightarrow> GLuint list" where
  "quads_line_other first ii =
     [first + ii * 4 + 1, first + ii * 4 + 0, first + ii * 4 + 0, first + ii * 4 + 3,
      first + ii * 4 + 1, first + ii * 4 + 2, first + ii * 4 + 2, first + ii * 4 + 3]"

definition quads_line_indices :: "Quads \<Rightarrow> GLint \<Rightarrow> GLsizei \<Rightarrow> GLuint list" where
  "quads_line_indices q first n =
     (if shadeMode q = GL_FLAT \<and> gl_quads_follow_provoking_vertex_convention q
         \<and> provokeMode q = GL_FIRST_VERTEX_CONVENTION
      then for_ii (quads_line_first first) (unat n)
      else for_ii (quads_line_other first) (unat n))"

subsection \<open>The chunk loops\<close>

text \<open>
  \<open>for (GLsizei ii=0; ii<k; ii++) indices[ii] += c;\<close> adds \<open>c\<close> to the first \<open>k\<close> entries
  and leaves the others as they are. The source runs it only after a full chunk, when all
  \<open>EMU_QUADS_BUFFER_SIZE\<close> blocks of the array have been written, so \<open>k\<close> stays within the
  written entries (the lemmas on the loops below establish this length).
\<close>

definition shift_indices :: "GLsizei \<Rightarrow> GLuint \<Rightarrow> GLuint list \<Rightarrow> GLuint list" where
  "shift_indices k c indices =
     map (\<lambda>x. x + c) (take (nat (sint k)) indices) @ drop (nat (sint k)) indices"

text \<open>
  \<open>sizeof(GLuint)\<close>. The byte count \<open>n * 6 * sizeof(GLuint)\<close> of \<open>glBufferData\<close> is at most
  \<open>24576\<close>, whatever the width of \<open>size_t\<close>.
\<close>

definition sizeof_GLuint :: GLsizei where
  "sizeof_GLuint = 4"

text \<open>
  The four \<open>while\<close> loops. Each takes the loop variables \<open>myCount\<close>, \<open>n\<close> and \<open>indices\<close> at
  the loop head and returns the calls issued from there on.
\<close>

function strip_tri_loop :: "GLsizei \<Rightarrow> GLsizei \<Rightarrow> GLuint list \<Rightarrow> gl_call list" where
  "strip_tri_loop myCount n indices =
     (if 2 \<le>s myCount then
        [BufferData GL_ELEMENT_ARRAY_BUFFER (n * 6 * sizeof_GLuint)
           (take (nat (sint (n * 6))) indices) GL_STATIC_DRAW,
         DrawElements GL_TRIANGLES (n * 6) GL_UNSIGNED_INT (BufferOffset 0)] @
        (let myCount' = myCount - EMU_QUADS_BUFFER_SIZE * 2 in
         if 2 \<le>s myCount' then
           let n' = (if c_div myCount' 2 - 1 <s EMU_QUADS_BUFFER_SIZE
                     then c_div myCount' 2 - 1 else EMU_QUADS_BUFFER_SIZE)
           in strip_tri_loop myCount' n'
                (shift_indices (n' * 6) (EMU_QUADS_BUFFER_SIZE * 2) indices)
         else strip_tri_loop myCount' n indices)
      else [])"
  by pat_completeness auto
termination
proof -
  have dec: "0 < sint myCount \<and> sint (myCount - 2048) < sint myCount"
    if "2 \<le>s myCount" for myCount :: GLsizei
  proof -
    from that have pos: "2 \<le> sint myCount"
      by (simp add: word_sle_eq)
    have "sint (myCount - 2048) = signed_take_bit 31 (sint myCount - 2048)"
      by (simp add: sint_word_ariths)
    also have "\<dots> = sint myCount - 2048"
      using pos sint_lt [of myCount] by (intro signed_take_bit_int_eq_self) simp_all
    finally show ?thesis
      using pos by linarith
  qed
  show ?thesis
    by (relation "measure (\<lambda>(myCount, n, indices). nat (sint myCount))")
      (auto simp: EMU_QUADS_BUFFER_SIZE_def dec)
qed

function quads_tri_loop :: "GLsizei \<Rightarrow> GLsizei \<Rightarrow> GLuint list \<Rightarrow> gl_call list" where
  "quads_tri_loop myCount n indices =
     (if 4 \<le>s myCount then
        [BufferData GL_ELEMENT_ARRAY_BUFFER (n * 6 * sizeof_GLuint)
           (take (nat (sint (n * 6))) indices) GL_STATIC_DRAW,
         DrawElements GL_TRIANGLES (n * 6) GL_UNSIGNED_INT (BufferOffset 0)] @
        (let myCount' = myCount - EMU_QUADS_BUFFER_SIZE * 4 in
         if 4 \<le>s myCount' then
           let n' = (if c_div myCount' 4 <s EMU_QUADS_BUFFER_SIZE
                     then c_div myCount' 4 else EMU_QUADS_BUFFER_SIZE)
           in quads_tri_loop myCount' n'
                (shift_indices (n' * 6) (EMU_QUADS_BUFFER_SIZE * 4) indices)
         else quads_tri_loop myCount' n indices)
      else [])"
  by pat_completeness auto
termination
proof -
  have dec: "0 < sint myCount \<and> sint (myCount - 4096) < sint myCount"
    if "4 \<le>s myCount" for myCount :: GLsizei
  proof -
    from that have pos: "4 \<le> sint myCount"
      by (simp add: word_sle_eq)
    have "sint (myCount - 4096) = signed_take_bit 31 (sint myCount - 4096)"
      by (simp add: sint_word_ariths)
    also have "\<dots> = sint myCount - 4096"
      using pos sint_lt [of myCount] by (intro signed_take_bit_int_eq_self) simp_all
    finally show ?thesis
      using pos by linarith
  qed
  show ?thesis
    by (relation "measure (\<lambda>(myCount, n, indices). nat (sint myCount))")
      (auto simp: EMU_QUADS_BUFFER_SIZE_def dec)
qed

function strip_line_loop :: "GLsizei \<Rightarrow> GLsizei \<Rightarrow> GLuint list \<Rightarrow> gl_call list" where
  "strip_line_loop myCount n indices =
     (if 2 \<le>s myCount then
        [DrawElements GL_LINES (n * 6 + 2) GL_UNSIGNED_INT
           (ClientArray (take (nat (sint (n * 6 + 2))) indices))] @
        (let myCount' = myCount - EMU_QUADS_BUFFER_SIZE * 2 in
         if 2 \<le>s myCount' then
           let n' = (if c_div myCount' 2 - 1 <s EMU_QUADS_BUFFER_SIZE
                     then c_div myCount' 2 - 1 else EMU_QUADS_BUFFER_SIZE)
           in strip_line_loop myCount' n'
                (shift_indices (n' * 6 + 2) (EMU_QUADS_BUFFER_SIZE * 2) indices)
         else strip_line_loop myCount' n indices)
      else [])"
  by pat_completeness auto
termination
proof -
  have dec: "0 < sint myCount \<and> sint (myCount - 2048) < sint myCount"
    if "2 \<le>s myCount" for myCount :: GLsizei
  proof -
    from that have pos: "2 \<le> sint myCount"
      by (simp add: word_sle_eq)
    have "sint (myCount - 2048) = signed_take_bit 31 (sint myCount - 2048)"
      by (simp add: sint_word_ariths)
    also have "\<dots> = sint myCount - 2048"
      using pos sint_lt [of myCount] by (intro signed_take_bit_int_eq_self) simp_all
    finally show ?thesis
      using pos by linarith
  qed
  show ?thesis
    by (relation "measure (\<lambda>(myCount, n, indices). nat (sint myCount))")
      (auto simp: EMU_QUADS_BUFFER_SIZE_def dec)
qed

function quads_line_loop :: "GLsizei \<Rightarrow> GLsizei \<Rightarrow> GLuint list \<Rightarrow> gl_call list" where
  "quads_line_loop myCount n indices =
     (if 4 \<le>s myCount then
        [DrawElements GL_LINES (n * 8) GL_UNSIGNED_INT
           (ClientArray (take (nat (sint (n * 8))) indices))] @
        (let myCount' = myCount - EMU_QUADS_BUFFER_SIZE * 4 in
         if 4 \<le>s myCount' then
           let n' = (if c_div myCount' 4 <s EMU_QUADS_BUFFER_SIZE
                     then c_div myCount' 4 else EMU_QUADS_BUFFER_SIZE)
           in quads_line_loop myCount' n'
                (shift_indices (n' * 8) (EMU_QUADS_BUFFER_SIZE * 4) indices)
         else quads_line_loop myCount' n indices)
      else [])"
  by pat_completeness auto
termination
proof -
  have dec: "0 < sint myCount \<and> sint (myCount - 4096) < sint myCount"
    if "4 \<le>s myCount" for myCount :: GLsizei
  proof -
    from that have pos: "4 \<le> sint myCount"
      by (simp add: word_sle_eq)
    have "sint (myCount - 4096) = signed_take_bit 31 (sint myCount - 4096)"
      by (simp add: sint_word_ariths)
    also have "\<dots> = sint myCount - 4096"
      using pos sint_lt [of myCount] by (intro signed_take_bit_int_eq_self) simp_all
    finally show ?thesis
      using pos by linarith
  qed
  show ?thesis
    by (relation "measure (\<lambda>(myCount, n, indices). nat (sint myCount))")
      (auto simp: EMU_QUADS_BUFFER_SIZE_def dec)
qed

text \<open>
  The loop equations are unfolded by hand, one iteration at a time.
\<close>

declare strip_tri_loop.simps [simp del]
declare quads_tri_loop.simps [simp del]
declare strip_line_loop.simps [simp del]
declare quads_line_loop.simps [simp del]

subsection \<open>glDrawArrays\<close>

text \<open>
  \<open>count &= (mode == GL_QUADS) ? (~0x3) : (~0x1)\<close>; the masked value is also what
  \<open>myCount\<close> starts from.
\<close>

definition mask_count :: "GLenum \<Rightarrow> GLsizei \<Rightarrow> GLsizei" where
  "mask_count mode count = count AND (if mode = GL_QUADS then NOT 3 else NOT 1)"

text \<open>The branch \<open>if (drawQuads)\<close>.\<close>

definition draw_triangles :: "Quads \<Rightarrow> GLenum \<Rightarrow> GLint \<Rightarrow> GLsizei \<Rightarrow> gl_call list" where
  "draw_triangles q mode first count =
     (if frontFaceMode q \<noteq> GL_FILL \<or> backFaceMode q \<noteq> GL_FILL
      then [PolygonMode GL_FRONT_AND_BACK GL_FILL] else []) @
     (let myCount = mask_count mode count in
      if mode = GL_QUAD_STRIP then
        let n = (if c_div myCount 2 - 1 <s EMU_QUADS_BUFFER_SIZE
                 then c_div myCount 2 - 1 else EMU_QUADS_BUFFER_SIZE);
            indices = strip_tri_indices q first n
        in [BindBuffer GL_ELEMENT_ARRAY_BUFFER (quadIndexBuffer q)] @
           strip_tri_loop myCount n indices @
           [BindBuffer GL_ELEMENT_ARRAY_BUFFER (elementArrayBuffer q)]
      else if mode = GL_QUADS then
        let n = (if c_div myCount 4 <s EMU_QUADS_BUFFER_SIZE
                 then c_div myCount 4 else EMU_QUADS_BUFFER_SIZE);
            indices = quads_tri_indices q first n
        in [BindBuffer GL_ELEMENT_ARRAY_BUFFER (quadIndexBuffer q)] @
           quads_tri_loop myCount n indices @
           [BindBuffer GL_ELEMENT_ARRAY_BUFFER (elementArrayBuffer q)]
      else []) @
     (if frontFaceMode q \<noteq> GL_FILL then [PolygonMode GL_FRONT (frontFaceMode q)] else []) @
     (if backFaceMode q \<noteq> GL_FILL then [PolygonMode GL_BACK (backFaceMode q)] else [])"

text \<open>The branch \<open>else if (drawLines)\<close>.\<close>

definition draw_lines :: "Quads \<Rightarrow> GLenum \<Rightarrow> GLint \<Rightarrow> GLsizei \<Rightarrow> gl_call list" where
  "draw_lines q mode first count =
     (if frontFaceMode q \<noteq> GL_LINE \<or> backFaceMode q \<noteq> GL_LINE
      then [PolygonMode GL_FRONT_AND_BACK GL_LINE] else []) @
     (let myCount = mask_count mode count in
      if mode = GL_QUAD_STRIP then
        let n = (if c_div myCount 2 - 1 <s EMU_QUADS_BUFFER_SIZE
                 then c_div myCount 2 - 1 else EMU_QUADS_BUFFER_SIZE);
            indices = strip_line_indices q first n
        in strip_line_loop myCount n indices
      else if mode = GL_QUADS then
        let n = (if c_div myCount 4 <s EMU_QUADS_BUFFER_SIZE
                 then c_div myCount 4 else EMU_QUADS_BUFFER_SIZE);
            indices = quads_line_indices q first n
        in quads_line_loop myCount n indices
      else []) @
     (if frontFaceMode q \<noteq> GL_LINE then [PolygonMode GL_FRONT (frontFaceMode q)] else []) @
     (if backFaceMode q \<noteq> GL_LINE then [PolygonMode GL_BACK (backFaceMode q)] else [])"

text \<open>The branch \<open>else if (drawPoints)\<close>.\<close>

definition draw_points :: "Quads \<Rightarrow> GLenum \<Rightarrow> GLint \<Rightarrow> GLsizei \<Rightarrow> gl_call list" where
  "draw_points q mode first count =
     (if frontFaceMode q \<noteq> GL_POINT \<or> backFaceMode q \<noteq> GL_POINT
      then [PolygonMode GL_FRONT_AND_BACK GL_POINT] else []) @
     (let myCount = mask_count mode count in [DrawArrays GL_POINTS first myCount]) @
     (if frontFaceMode q \<noteq> GL_POINT then [PolygonMode GL_FRONT (frontFaceMode q)] else []) @
     (if backFaceMode q \<noteq> GL_POINT then [PolygonMode GL_BACK (backFaceMode q)] else [])"

text \<open>
  The part of \<open>glDrawArrays\<close> after the three flags \<open>drawQuads\<close>, \<open>drawLines\<close> and
  \<open>drawPoints\<close> are set: the chain \<open>if (drawQuads) ... else if (drawLines) ... else if
  (drawPoints) ...\<close> and the final \<open>return true\<close>.
\<close>

definition draw_by_flags ::
  "Quads \<Rightarrow> GLenum \<Rightarrow> GLint \<Rightarrow> GLsizei \<Rightarrow> bool \<Rightarrow> bool \<Rightarrow> bool \<Rightarrow> bool \<times> Quads \<times> gl_call list"
where
  "draw_by_flags q mode first count drawQuads drawLines drawPoints =
     (if drawQuads then (True, q, draw_triangles q mode first count)
      else if drawLines then (True, q, draw_lines q mode first count)
      else if drawPoints then (True, q, draw_points q mode first count)
      else (True, q, []))"

text \<open>
  \<open>Quads::glDrawArrays\<close>. The result is the returned \<open>bool\<close>, the object after the call, and
  the calls issued to the next layer. No statement of the source assigns a member of the
  object; the calls through the dispatch table go to the layers below this one.
\<close>

definition glDrawArrays :: "Quads \<Rightarrow> GLenum \<Rightarrow> GLint \<Rightarrow> GLsizei \<Rightarrow> bool \<times> Quads \<times> gl_call list" where
  "glDrawArrays q mode first count =
     (if mode \<noteq> GL_QUADS \<and> mode \<noteq> GL_QUAD_STRIP then (False, q, [])
      else if count <s 0 then (False, q, [])
      else if count <s 4 then (True, q, [])
      else if cullingFaces q \<and> cullFace q = GL_FRONT_AND_BACK then (True, q, [])
      else if \<not> cullingFaces q then
        draw_by_flags q mode first count
          (frontFaceMode q = GL_FILL \<or> backFaceMode q = GL_FILL)
          (frontFaceMode q = GL_LINE \<or> backFaceMode q = GL_LINE)
          (frontFaceMode q = GL_POINT \<or> backFaceMode q = GL_POINT)
      else if cullFace q = GL_BACK then
        draw_by_flags q mode first count
          (frontFaceMode q = GL_FILL) (frontFaceMode q = GL_LINE) (frontFaceMode q = GL_POINT)
      else if cullFace q = GL_FRONT then
        draw_by_flags q mode first count
          (backFaceMode q = GL_FILL) (backFaceMode q = GL_LINE) (backFaceMode q = GL_POINT)
      else (True, q, []))"

text \<open>
  The value that \<open>glDrawArrays\<close> gives to \<open>drawQuads\<close> (for the style \<open>GL_FILL\<close>), to
  \<open>drawLines\<close> (\<open>GL_LINE\<close>) and to \<open>drawPoints\<close> (\<open>GL_POINT\<close>) in the state \<open>q\<close>; where the source
  returns before it sets them, the flag is off.
\<close>

definition draw_flag :: "Quads \<Rightarrow> GLenum \<Rightarrow> bool" where
  "draw_flag q style =
     (if \<not> cullingFaces q then frontFaceMode q = style \<or> backFaceMode q = style
      else if cullFace q = GL_BACK then frontFaceMode q = style
      else if cullFace q = GL_FRONT then backFaceMode q = style
      else False)"

subsection \<open>What the next layer sees\<close>


text \<open>The draw submissions of a trace, and the index data that reaches each of them.\<close>

fun is_draw :: "gl_call \<Rightarrow> bool" where
  "is_draw (DrawElements m c t src) = True"
| "is_draw (DrawArrays m f c) = True"
| "is_draw other = False"

definition submissions :: "gl_call list \<Rightarrow> gl_call list" where
  "submissions cs = filter is_draw cs"

fun upload :: "gl_call \<Rightarrow> GLuint list option" where
  "upload (BufferData target size_bytes data usage) = Some data"
| "upload (DrawElements m c t (ClientArray data)) = Some data"
| "upload other = None"

definition uploads :: "gl_call list \<Rightarrow> GLuint list list" where
  "uploads cs = List.map_filter upload cs"

text \<open>The primitive kind of each submission of a trace.\<close>

fun submitted_primitive :: "gl_call \<Rightarrow> GLenum option" where
  "submitted_primitive (DrawElements m c t src) = Some m"
| "submitted_primitive (DrawArrays m f c) = Some m"
| "submitted_primitive other = None"

definition primitives :: "gl_call list \<Rightarrow> GLenum list" where
  "primitives cs = List.map_filter submitted_primitive cs"

subsection \<open>The resolver of the specification\<close>

text \<open>
  The active face style set as the specification words it (section 4.2, steps 1 and 2): both
  face styles when culling is off, the front style when back faces are culled, the back
  style when front faces are culled, and nothing when both are culled. It is compared with
  what \<open>glDrawArrays\<close> does; no definition above depends on it.
\<close>

definition active_face_styles :: "Quads \<Rightarrow> GLenum set" where
  "active_face_styles q =
     (if \<not> cullingFaces q then {frontFaceMode q, backFaceMode q}
      else if cullFace q = GL_BACK then {frontFaceMode q}
      else if cullFace q = GL_FRONT then {backFaceMode q}
      else {})"

subsection \<open>Blocks of indices\<close>

text \<open>
  What the loop bodies have in common, for the proofs about chunks: every block has \<open>L\<close>
  entries, adding \<open>c\<close> to each entry is the block for \<open>first + c\<close>, and the block of iteration
  \<open>a + i\<close> is the block of iteration \<open>i\<close> for \<open>first + s * a\<close>.
\<close>

definition block_body :: "nat \<Rightarrow> GLuint \<Rightarrow> (GLint \<Rightarrow> GLuint \<Rightarrow> GLuint list) \<Rightarrow> bool" where
  "block_body L s B \<longleftrightarrow>
     (\<forall>f i. length (B f i) = L) \<and>
     (\<forall>f c i. map (\<lambda>x. x + c) (B f i) = B (f + c) i) \<and>
     (\<forall>f a i. B f (a + i) = B (f + s * a) i)"

text \<open>
  One chunk of a quad strip's outline in the variant that stores \<open>indices[0]\<close> and
  \<open>indices[1]\<close> first: the contents of \<open>indices\<close> after the generation loop has run \<open>k\<close>
  times.
\<close>

definition strip_outline_chunk :: "GLint \<Rightarrow> nat \<Rightarrow> GLuint list" where
  "strip_outline_chunk f k = [f + 0, f + 1] @ for_ii (strip_line_other f) k"

section \<open>Properties\<close>

subsection \<open>Signed 32-bit arithmetic without overflow\<close>

lemma and_not_mask_w: "(x::'a::len word) AND NOT (mask k) = push_bit k (drop_bit k x)"
  by (rule bit_eqI) (auto simp: bit_simps)

lemma and_not3: "(x::32 word) AND NOT 3 = x div 4 * 4"
proof -
  have eq: "(3::32 word) = mask 2" by (simp add: mask_eq_exp_minus_1)
  show ?thesis 
    unfolding eq and_not_mask_w by (simp add: push_bit_eq_mult drop_bit_eq_div)
qed

lemma and_not1: "(x::32 word) AND NOT 1 = x div 2 * 2"
proof -
  have eq: "(1::32 word) = mask 1" by (simp add: mask_eq_exp_minus_1)
  show ?thesis 
    unfolding eq and_not_mask_w by (simp add: push_bit_eq_mult drop_bit_eq_div)
qed

lemma sint32_add: 
  "- 2147483648 \<le> sint a + sint b \<Longrightarrow> sint a + sint b < 2147483648
   \<Longrightarrow> sint (a + b :: 32 word) = sint a + sint b"
  by (simp add: sint_word_ariths signed_take_bit_int_eq_self)

lemma sint32_sub: 
  "- 2147483648 \<le> sint a - sint b \<Longrightarrow> sint a - sint b < 2147483648
   \<Longrightarrow> sint (a - b :: 32 word) = sint a - sint b"
  by (simp add: sint_word_ariths signed_take_bit_int_eq_self)

lemma sint32_mult: 
  "- 2147483648 \<le> sint a * sint b \<Longrightarrow> sint a * sint b < 2147483648
   \<Longrightarrow> sint (a * b :: 32 word) = sint a * sint b"
  by (simp add: sint_word_ariths signed_take_bit_int_eq_self)

lemma sint32_of_int:
  "- 2147483648 \<le> k \<Longrightarrow> k < 2147483648 \<Longrightarrow> sint (word_of_int k :: 32 word) = k"
  by (simp add: signed_take_bit_int_eq_self sint_sbintrunc')

lemma uint32_nonneg: "0 \<le> sint (x :: 32 word) \<Longrightarrow> uint x = sint x"
  using sint_lt [of x] by (simp add: uint_sint take_bit_int_eq_self)

lemma unat32_nonneg: 
  assumes "0 \<le> sint (x :: 32 word)" shows "unat x = nat (sint x)"
proof -
  have "sint x = uint x" using assms by (simp add: uint32_nonneg)
  then show ?thesis by simp
qed

lemma sint32_small: 
  assumes "uint (x :: 32 word) < 2147483648" shows "sint x = uint x"
proof -
  have "- 2147483648 \<le> uint x" using uint_ge_0 [of x] by linarith
  with assms show ?thesis
    by (simp add: sint_uint signed_take_bit_int_eq_self)
qed

lemma sint_div4:
  assumes "0 \<le> sint (x :: 32 word)"
  shows "sint (x div 4) = sint x div 4"
proof -
  have "uint (x div 4) = sint x div 4"
    using assms by (simp add: uint_div uint32_nonneg)
  moreover have "sint x div 4 \<le> sint x"
    using assms by linarith
  ultimately show ?thesis
    using sint_lt [of x] by (simp add: sint32_small)
qed

lemma sint_div2:
  assumes "0 \<le> sint (x :: 32 word)"
  shows "sint (x div 2) = sint x div 2"
proof -
  have "uint (x div 2) = sint x div 2"
    using assms by (simp add: uint_div uint32_nonneg)
  moreover have "sint x div 2 \<le> sint x"
    using assms by linarith
  ultimately show ?thesis
    using sint_lt [of x] by (simp add: sint32_small)
qed

lemma sint_mask3: 
  assumes "0 \<le> sint (x :: 32 word)" shows "sint (x AND NOT 3) = 4 * (sint x div 4)"
proof -
  have d: "sint (x div 4) = sint x div 4"
    by (rule sint_div4 [OF assms])
  have "sint (x div 4 * 4) = sint (x div 4) * sint (4 :: 32 word)"
    using assms sint_lt [of x] by (intro sint32_mult) (simp_all add: d)
  then show ?thesis unfolding and_not3 by (simp add: d)
qed

lemma sint_mask1: 
  assumes "0 \<le> sint (x :: 32 word)" shows "sint (x AND NOT 1) = 2 * (sint x div 2)"
proof -
  have d: "sint (x div 2) = sint x div 2"
    by (rule sint_div2 [OF assms])
  have "sint (x div 2 * 2) = sint (x div 2) * sint (2 :: 32 word)"
    using assms sint_lt [of x] by (intro sint32_mult) (simp_all add: d)
  then show ?thesis unfolding and_not1 by (simp add: d)
qed

lemma sint_c_div4:
  assumes "0 \<le> sint x"
  shows "sint (c_div x 4) = sint x div 4"
proof -
  have "sint x sdiv 4 = sint x div 4"
    using assms by (simp add: signed_divide_int_def sgn_if)
  moreover have "0 \<le> sint x div 4" "sint x div 4 \<le> sint x"
    using assms by linarith+
  ultimately show ?thesis
    using sint_lt [of x] by (simp add: c_div_def sint32_of_int)
qed

lemma sint_c_div2:
  assumes "0 \<le> sint x"
  shows "sint (c_div x 2) = sint x div 2"
proof -
  have "sint x sdiv 2 = sint x div 2"
    using assms by (simp add: signed_divide_int_def sgn_if)
  moreover have "0 \<le> sint x div 2" "sint x div 2 \<le> sint x"
    using assms by linarith+
  ultimately show ?thesis
    using sint_lt [of x] by (simp add: c_div_def sint32_of_int)
qed

lemma sint_times6:
  assumes "0 \<le> sint (n :: 32 word)" "sint n \<le> 1024"
  shows "sint (n * 6) = sint n * 6"
proof -
  have "sint (n * 6) = sint n * sint (6 :: 32 word)"
    using assms by (intro sint32_mult) simp_all
  then show ?thesis by simp
qed

lemma sint_sub4096:
  assumes "2 \<le> sint (mc :: 32 word)"
  shows "sint (mc - 4096) = sint mc - 4096"
proof -
  have "sint (mc - 4096) = sint mc - sint (4096 :: 32 word)"
    using assms sint_lt [of mc] by (intro sint32_sub) simp_all
  then show ?thesis by simp
qed

lemma sint_sub2048:
  assumes "2 \<le> sint (mc :: 32 word)"
  shows "sint (mc - 2048) = sint mc - 2048"
proof -
  have "sint (mc - 2048) = sint mc - sint (2048 :: 32 word)"
    using assms sint_lt [of mc] by (intro sint32_sub) simp_all
  then show ?thesis by simp
qed

text \<open>The value of \<open>n\<close> that the source computes for the quads loops.\<close>

lemma sint_quads_n:
  assumes "0 \<le> sint mc"
  shows "sint (if c_div mc 4 <s EMU_QUADS_BUFFER_SIZE then c_div mc 4 else EMU_QUADS_BUFFER_SIZE)
          = min (sint mc div 4) 1024"
  using assms by (simp add: word_sless_alt sint_c_div4 EMU_QUADS_BUFFER_SIZE_def)

lemma sint_mask_count_quads:
  "0 \<le> sint count \<Longrightarrow> sint (mask_count GL_QUADS count) = 4 * (sint count div 4)"
  by (simp only: mask_count_def simp_thms if_True sint_mask3)

lemma sint_mask_count_strip:
  assumes "0 \<le> sint count"
  shows "sint (mask_count GL_QUAD_STRIP count) = 2 * (sint count div 2)"
proof -
  have "GL_QUAD_STRIP \<noteq> GL_QUADS" by (simp add: gl_tokens)
  then show ?thesis
    by (simp only: mask_count_def if_False sint_mask1 [OF assms])
qed

lemma mask_count_quads: 
  assumes "4 \<le>s count" shows "4 \<le>s mask_count GL_QUADS count"
proof -
  from assms have c: "4 \<le> sint count" by (simp add: word_sle_eq)
  then have "4 \<le> 4 * (sint count div 4)" by arith
  with c show ?thesis
    by (simp add: word_sle_eq sint_mask_count_quads)
qed

lemma mask_count_strip: 
  assumes "4 \<le>s count" shows "2 \<le>s mask_count GL_QUAD_STRIP count"
proof -
  from assms have c: "4 \<le> sint count" by (simp add: word_sle_eq)
  then have "2 \<le> 2 * (sint count div 2)" by arith
  with c show ?thesis
    by (simp add: word_sle_eq sint_mask_count_strip)
qed

subsection \<open>Observers of a trace\<close>

lemma uploads_append: "uploads (xs @ ys) = uploads xs @ uploads ys"
  by (simp add: uploads_def map_filter_def)

lemma uploads_Nil: "uploads [] = []"
  by (simp add: uploads_def map_filter_def)

lemma uploads_Cons:
  "uploads (c # cs) = (case upload c of None \<Rightarrow> uploads cs | Some d \<Rightarrow> d # uploads cs)"
  unfolding uploads_def by (simp add: map_filter_simps)

lemmas uploads_simps = uploads_append uploads_Nil uploads_Cons

lemma submissions_append: "submissions (xs @ ys) = submissions xs @ submissions ys"
  by (simp add: submissions_def)

lemma submissions_Nil: "submissions [] = []"
  by (simp add: submissions_def)

lemma submissions_Cons:
  "submissions (c # cs) = (if is_draw c then c # submissions cs else submissions cs)"
  by (simp add: submissions_def)

lemmas submissions_simps = submissions_append submissions_Nil submissions_Cons

lemma primitives_append: "primitives (xs @ ys) = primitives xs @ primitives ys"
  by (simp add: primitives_def map_filter_def)

lemma primitives_Nil: "primitives [] = []"
  by (simp add: primitives_def map_filter_def)

lemma primitives_Cons: 
  "primitives (c # cs) = (case submitted_primitive c of None \<Rightarrow> primitives cs | Some m \<Rightarrow> m # primitives cs)"
  unfolding primitives_def by (simp add: map_filter_simps)

lemmas primitives_simps = primitives_append primitives_Nil primitives_Cons

subsection \<open>State setters\<close>

text \<open>
  Four of the five setters compare their argument with the tokens they accept and leave the
  object as it is otherwise; \<open>glPolygonMode\<close> does the same for its face argument.
\<close>

lemma glFrontFace_invalid:
  "mode \<noteq> GL_CW \<Longrightarrow> mode \<noteq> GL_CCW \<Longrightarrow> glFrontFace q mode = q"
  by (simp add: glFrontFace_def)

lemma glShadeModel_invalid:
  "mode \<noteq> GL_SMOOTH \<Longrightarrow> mode \<noteq> GL_FLAT \<Longrightarrow> glShadeModel q mode = q"
  by (simp add: glShadeModel_def)

lemma glProvokingVertex_invalid:
  "mode \<noteq> GL_FIRST_VERTEX_CONVENTION \<Longrightarrow> mode \<noteq> GL_LAST_VERTEX_CONVENTION
   \<Longrightarrow> glProvokingVertex q mode = q"
  by (simp add: glProvokingVertex_def)

lemma glCullFace_invalid:
  "face \<noteq> GL_FRONT \<Longrightarrow> face \<noteq> GL_BACK \<Longrightarrow> face \<noteq> GL_FRONT_AND_BACK
   \<Longrightarrow> glCullFace q face = q"
  by (simp add: glCullFace_def)

lemma glPolygonMode_invalid_face:
  "f \<noteq> GL_FRONT \<Longrightarrow> f \<noteq> GL_BACK \<Longrightarrow> f \<noteq> GL_FRONT_AND_BACK
   \<Longrightarrow> glPolygonMode q f m = q"
  by (simp add: glPolygonMode_def)

text \<open>
  C3. The claim is that every state setter validates its enum argument and leaves all fields
  unchanged on an unrecognized value, in particular that \<open>glPolygonMode\<close> with a style outside
  \<open>GL_FILL\<close>, \<open>GL_LINE\<close>, \<open>GL_POINT\<close> leaves \<open>frontFaceMode\<close> and \<open>backFaceMode\<close> unchanged.
  \<open>glPolygonMode\<close> never looks at its style argument: on the freshly initialised object,
  \<open>glPolygonMode(GL_FRONT, 0x1234)\<close> replaces \<open>frontFaceMode = GL_FILL\<close> by \<open>0x1234\<close>.
\<close>

theorem glPolygonMode_stores_unrecognized_style:
  "(0x1234 :: GLenum) \<noteq> GL_FILL \<and> (0x1234 :: GLenum) \<noteq> GL_LINE
   \<and> (0x1234 :: GLenum) \<noteq> GL_POINT
   \<and> frontFaceMode (fst (Init GL_TRUE 1)) = GL_FILL
   \<and> frontFaceMode (glPolygonMode (fst (Init GL_TRUE 1)) GL_FRONT 0x1234) = 0x1234
   \<and> glPolygonMode (fst (Init GL_TRUE 1)) GL_FRONT 0x1234 \<noteq> fst (Init GL_TRUE 1)"
  by (simp add: glPolygonMode_def Init_def gl_tokens)

subsection \<open>Cleanup\<close>

text \<open>
  \<open>Cleanup\<close> issues no call to the next layer and leaves the object as it is, in every state.
\<close>

lemma Cleanup_no_op: "Cleanup q = (q, [])"
  by (simp add: Cleanup_def)

text \<open>
  C4. The claim is that \<open>Cleanup\<close> releases the resources the core owns, by issuing a
  deletion of the scratch index buffer that \<open>Init\<close> allocated. \<open>Init\<close> generates the buffer
  (here the driver hands out the name \<open>1\<close>) and stores its name in \<open>quadIndexBuffer\<close>;
  \<open>Cleanup\<close> on that object issues no call at all, so no \<open>glDeleteBuffers\<close> for the name \<open>1\<close>,
  and no other function of the source deletes it either.
\<close>

theorem Cleanup_issues_no_call:
  "snd (Init GL_TRUE 1) = [GenBuffers 1]
   \<and> quadIndexBuffer (fst (Init GL_TRUE 1)) = 1
   \<and> snd (Cleanup (fst (Init GL_TRUE 1))) = []
   \<and> DeleteBuffers [1] \<notin> set (snd (Cleanup (fst (Init GL_TRUE 1))))"
  by (simp add: Cleanup_def Init_def)

subsection \<open>Rejected and empty draws\<close>

text \<open>
  C9. For every mode (so for \<open>GL_QUADS\<close> and \<open>GL_QUAD_STRIP\<close>), every \<open>first\<close> and every
  state, \<open>glDrawArrays\<close> with \<open>count < 0\<close> returns \<open>false\<close> and issues no call to the next
  layer, hence no submission.
\<close>

theorem glDrawArrays_negative_count:
  assumes "count <s 0"
  shows "fst (glDrawArrays q mode first count) = False
         \<and> snd (snd (glDrawArrays q mode first count)) = []"
  using assms by (simp add: glDrawArrays_def)

theorem glDrawArrays_negative_count_witness:
  "(- 1 :: GLsizei) <s 0
   \<and> fst (glDrawArrays (fst (Init GL_TRUE 1)) GL_QUAD_STRIP 0 (- 1)) = False
   \<and> snd (snd (glDrawArrays (fst (Init GL_TRUE 1)) GL_QUAD_STRIP 0 (- 1))) = []"
  using glDrawArrays_negative_count [of "- 1" "fst (Init GL_TRUE 1)" GL_QUAD_STRIP 0]
  by (simp add: word_sless_alt)

subsection \<open>Frame\<close>

text \<open>
  C10. A draw call never changes the object: for every mode, \<open>first\<close>, \<open>count\<close> and starting
  state, the object after \<open>glDrawArrays\<close> is the object before it, field by field
  (\<open>windingMode\<close>, \<open>frontFaceMode\<close>, \<open>backFaceMode\<close>, \<open>shadeMode\<close>, \<open>provokeMode\<close>, \<open>cullFace\<close>,
  \<open>cullingFaces\<close>, the convention flag, \<open>elementArrayBuffer\<close> and \<open>quadIndexBuffer\<close>).
\<close>

theorem glDrawArrays_frame:
  "fst (snd (glDrawArrays q mode first count)) = q"
  by (simp add: glDrawArrays_def draw_by_flags_def)

subsection \<open>Which branch a draw takes\<close>

lemma glDrawArrays_calls:
  assumes "mode = GL_QUADS \<or> mode = GL_QUAD_STRIP" and "4 \<le>s count"
  shows "snd (snd (glDrawArrays q mode first count)) =
           (if draw_flag q GL_FILL then draw_triangles q mode first count
            else if draw_flag q GL_LINE then draw_lines q mode first count
            else if draw_flag q GL_POINT then draw_points q mode first count
            else [])"
proof -
  have neg: "\<not> count <s 0" "\<not> count <s 4"
    using assms(2) by (simp_all add: word_sle_eq word_sless_alt)
  have fb: "GL_FRONT_AND_BACK \<noteq> GL_BACK" "GL_FRONT_AND_BACK \<noteq> GL_FRONT"
    by (simp_all add: gl_tokens)
  show ?thesis
    using assms(1) neg fb by (auto simp: glDrawArrays_def draw_by_flags_def draw_flag_def)
qed

subsection \<open>The element-array binding\<close>













subsection \<open>The resolved primitive kind\<close>

lemma set_primitives_strip_tri_loop:
  "set (primitives (strip_tri_loop mc n ix)) = (if 2 \<le>s mc then {GL_TRIANGLES} else {})"
proof (induction mc n ix rule: strip_tri_loop.induct)
  case (1 myCount n indices)
  show ?case
    using "1.IH" by (subst strip_tri_loop.simps) (auto simp: Let_def primitives_simps)
qed

lemma set_primitives_quads_tri_loop:
  "set (primitives (quads_tri_loop mc n ix)) = (if 4 \<le>s mc then {GL_TRIANGLES} else {})"
proof (induction mc n ix rule: quads_tri_loop.induct)
  case (1 myCount n indices)
  show ?case
    using "1.IH" by (subst quads_tri_loop.simps) (auto simp: Let_def primitives_simps)
qed

lemma set_primitives_strip_line_loop:
  "set (primitives (strip_line_loop mc n ix)) = (if 2 \<le>s mc then {GL_LINES} else {})"
proof (induction mc n ix rule: strip_line_loop.induct)
  case (1 myCount n indices)
  show ?case
    using "1.IH" by (subst strip_line_loop.simps) (auto simp: Let_def primitives_simps)
qed

lemma set_primitives_quads_line_loop:
  "set (primitives (quads_line_loop mc n ix)) = (if 4 \<le>s mc then {GL_LINES} else {})"
proof (induction mc n ix rule: quads_line_loop.induct)
  case (1 myCount n indices)
  show ?case
    using "1.IH" by (subst quads_line_loop.simps) (auto simp: Let_def primitives_simps)
qed

lemma draw_flag_iff: "draw_flag q style \<longleftrightarrow> style \<in> active_face_styles q"
  by (auto simp: draw_flag_def active_face_styles_def)

lemma set_primitives_draw_triangles:
  assumes "mode = GL_QUADS \<or> mode = GL_QUAD_STRIP" "4 \<le>s count"
  shows "set (primitives (draw_triangles q mode first count)) = {GL_TRIANGLES}"
proof -
  have "GL_QUAD_STRIP \<noteq> GL_QUADS" by (simp add: gl_tokens)
  with assms mask_count_quads [OF assms(2)] mask_count_strip [OF assms(2)] show ?thesis
    by (auto simp: draw_triangles_def Let_def primitives_simps
        set_primitives_strip_tri_loop set_primitives_quads_tri_loop)
qed

lemma set_primitives_draw_lines:
  assumes "mode = GL_QUADS \<or> mode = GL_QUAD_STRIP" "4 \<le>s count"
  shows "set (primitives (draw_lines q mode first count)) = {GL_LINES}"
proof -
  have "GL_QUAD_STRIP \<noteq> GL_QUADS" by (simp add: gl_tokens)
  with assms mask_count_quads [OF assms(2)] mask_count_strip [OF assms(2)] show ?thesis
    by (auto simp: draw_lines_def Let_def primitives_simps
        set_primitives_strip_line_loop set_primitives_quads_line_loop)
qed

lemma set_primitives_draw_points:
  "set (primitives (draw_points q mode first count)) = {GL_POINTS}"
  by (simp add: draw_points_def Let_def primitives_simps)

text \<open>
  C7. The resolver applies the priority FILL, then LINE, then POINT over the active face
  style set: for every state, for both modes and every \<open>count\<close> of at least four vertices,
  all submissions of the draw are triangles if \<open>GL_FILL\<close> is in the set, else all are lines
  if \<open>GL_LINE\<close> is in the set, else all are points if \<open>GL_POINT\<close> is, and there is at least
  one submission in each of these cases; otherwise nothing is submitted. With
  \<open>frontFaceMode = GL_LINE\<close>, \<open>backFaceMode = GL_FILL\<close> and culling off this gives triangles.
\<close>

theorem glDrawArrays_priority:
  assumes "mode = GL_QUADS \<or> mode = GL_QUAD_STRIP" and "4 \<le>s count"
  shows "set (primitives (snd (snd (glDrawArrays q mode first count)))) =
           (if GL_FILL \<in> active_face_styles q then {GL_TRIANGLES}
            else if GL_LINE \<in> active_face_styles q then {GL_LINES}
            else if GL_POINT \<in> active_face_styles q then {GL_POINTS}
            else {})"
  by (simp add: glDrawArrays_calls [OF assms] draw_flag_iff primitives_Nil
        set_primitives_draw_triangles [OF assms] set_primitives_draw_lines [OF assms]
        set_primitives_draw_points)


theorem glDrawArrays_priority_witness:
  "(GL_QUADS = GL_QUADS \<or> GL_QUADS = GL_QUAD_STRIP) \<and> (4 :: GLsizei) \<le>s 4
   \<and> frontFaceMode (glPolygonMode (fst (Init GL_TRUE 1)) GL_FRONT GL_LINE) = GL_LINE
   \<and> backFaceMode (glPolygonMode (fst (Init GL_TRUE 1)) GL_FRONT GL_LINE) = GL_FILL
   \<and> cullingFaces (glPolygonMode (fst (Init GL_TRUE 1)) GL_FRONT GL_LINE) = False
   \<and> set (primitives (snd (snd (glDrawArrays
        (glPolygonMode (fst (Init GL_TRUE 1)) GL_FRONT GL_LINE) GL_QUADS 0 4)))) = {GL_TRIANGLES}"
proof -
  let ?q = "glPolygonMode (fst (Init GL_TRUE 1)) GL_FRONT GL_LINE"
  have h1: "GL_QUADS = GL_QUADS \<or> GL_QUADS = GL_QUAD_STRIP"
    by simp
  have h2: "(4 :: GLsizei) \<le>s 4"
    by simp
  have fields: "frontFaceMode ?q = GL_LINE" "backFaceMode ?q = GL_FILL" "cullingFaces ?q = False"
    by (simp_all add: glPolygonMode_def Init_def)
  have "GL_FILL \<in> active_face_styles ?q"
    by (simp add: active_face_styles_def fields)
  then show ?thesis
    using h2 fields glDrawArrays_priority [OF h1 h2, of ?q 0] by simp
qed

subsection \<open>Blocks and chunks\<close>

lemma length_for_ii:
  "(\<And>i. length (body i) = L) \<Longrightarrow> length (for_ii body n) = L * n"
  by (induction n) simp_all

lemmas body_defs =
  strip_tri_smooth_def strip_tri_flat_last_def strip_tri_flat_first_def
  quads_tri_smooth_def quads_tri_flat_last_def quads_tri_flat_first_def
  strip_line_first_def strip_line_other_def quads_line_first_def quads_line_other_def

lemma length_quads_tri_indices:
  "length (quads_tri_indices q first n) = 6 * unat n"
  by (simp add: quads_tri_indices_def length_for_ii body_defs)

lemma length_strip_tri_indices:
  "length (strip_tri_indices q first n) = 6 * unat n"
  by (simp add: strip_tri_indices_def length_for_ii body_defs)

lemma length_quads_line_indices:
  "length (quads_line_indices q first n) = 8 * unat n"
  by (simp add: quads_line_indices_def length_for_ii body_defs)

lemma length_strip_line_indices:
  "length (strip_line_indices q first n) = 6 * unat n + 2"
  by (simp add: strip_line_indices_def length_for_ii body_defs)

lemma for_ii_concat: "for_ii body n = concat (map (\<lambda>i. body (of_nat i)) [0..<n])"
  by (induction n) simp_all

lemma map_for_ii: "map g (for_ii body n) = for_ii (\<lambda>i. map g (body i)) n"
  by (induction n) simp_all

lemma for_ii_add:
  "for_ii body (a + b) = for_ii body a @ for_ii (\<lambda>i. body (of_nat a + i)) b"
  by (induction b) simp_all

lemma take_for_ii:
  assumes "\<And>i. length (body i) = L" and "k \<le> n"
  shows "take (L * k) (for_ii body n) = for_ii body k"
proof -
  from assms(2) obtain d where n: "n = k + d"
    using le_Suc_ex by blast
  have "length (for_ii body k) = L * k"
    using assms(1) by (rule length_for_ii)
  then show ?thesis
    by (simp add: n for_ii_add)
qed

lemma block_body_quads_tri:
  "block_body 6 4 quads_tri_smooth" "block_body 6 4 quads_tri_flat_last"
  "block_body 6 4 quads_tri_flat_first"
  by (simp_all add: block_body_def body_defs algebra_simps)

lemma block_body_strip_tri:
  "block_body 6 2 strip_tri_smooth" "block_body 6 2 strip_tri_flat_last"
  "block_body 6 2 strip_tri_flat_first"
  by (simp_all add: block_body_def body_defs algebra_simps)

lemma block_body_lines:
  "block_body 6 2 strip_line_first" "block_body 6 2 strip_line_other"
  "block_body 8 4 quads_line_first" "block_body 8 4 quads_line_other"
  by (simp_all add: block_body_def body_defs algebra_simps)

lemma block_length: "block_body L s B \<Longrightarrow> length (for_ii (B f) n) = L * n"
  by (simp add: block_body_def length_for_ii)

lemma block_shift:
  "block_body L s B \<Longrightarrow> map (\<lambda>x. x + c) (for_ii (B f) n) = for_ii (B (f + c)) n"
  by (simp add: block_body_def map_for_ii)

lemma block_take:
  "block_body L s B \<Longrightarrow> k \<le> n \<Longrightarrow> take (L * k) (for_ii (B f) n) = for_ii (B f) k"
  by (simp add: block_body_def take_for_ii)

lemma block_add:
  "block_body L s B \<Longrightarrow>
   for_ii (B f) (a + b) = for_ii (B f) a @ for_ii (B (f + s * of_nat a)) b"
  by (simp add: block_body_def for_ii_add)

lemma quads_tri_loop_uploads:
  assumes B: "block_body 6 4 B"
    and "4 \<le> sint mc"
    and "sint n = min (sint mc div 4) 1024"
    and "take (6 * nat (sint n)) ix = for_ii (B f) (nat (sint n))"
    and "1024 < sint mc div 4 \<longrightarrow> length ix = 6144"
  shows "concat (uploads (quads_tri_loop mc n ix)) = for_ii (B f) (nat (sint mc div 4))"
  using assms(2-)
proof (induction mc n ix arbitrary: f rule: quads_tri_loop.induct)
  case (1 myCount n indices)
  let ?m = "sint myCount div 4"
  let ?mc' = "myCount - 4096"
  have n_bounds: "0 \<le> sint n" "sint n \<le> 1024"
    using "1.prems"(1,2) by auto
  have n6: "nat (sint (n * 6)) = 6 * nat (sint n)"
    using n_bounds by (simp add: sint_times6)
  have mc': "sint ?mc' = sint myCount - 4096"
    using "1.prems"(1) by (simp add: sint_sub4096)
  have head: "4 \<le>s myCount"
    using "1.prems"(1) by (simp add: word_sle_eq)
  show ?case
  proof (cases "4 \<le>s ?mc'")
    case True
    then have big: "4100 \<le> sint myCount"
      by (simp add: word_sle_eq mc')
    then have m: "1024 < ?m" by linarith
    define n' where "n' = (if c_div ?mc' 4 <s EMU_QUADS_BUFFER_SIZE
                           then c_div ?mc' 4 else EMU_QUADS_BUFFER_SIZE)"
    have sn': "sint n' = min (sint ?mc' div 4) 1024"
      unfolding n'_def using big by (intro sint_quads_n) (simp add: mc')
    have n'_bounds: "0 \<le> sint n'" "sint n' \<le> 1024"
      using big by (simp_all add: sn' mc')
    have n'6: "nat (sint (n' * 6)) = 6 * nat (sint n')"
      using n'_bounds by (simp add: sint_times6)
    have sn: "nat (sint n) = 1024"
      using "1.prems"(2) m by simp
    have len: "length indices = 6144"
      using "1.prems"(4) m by simp
    have full: "indices = for_ii (B f) 1024"
      using "1.prems"(3) len by (simp add: sn)
    let ?ix' = "shift_indices (n' * 6) (EMU_QUADS_BUFFER_SIZE * 4) indices"
    have k: "nat (sint n') \<le> 1024"
      using n'_bounds by simp
    have take': "take (6 * nat (sint n')) ?ix' = for_ii (B (f + 4096)) (nat (sint n'))"
      unfolding shift_indices_def n'6
      using k by (simp add: full block_length [OF B] block_take [OF B] block_shift [OF B]
          EMU_QUADS_BUFFER_SIZE_def)
    have len': "length ?ix' = 6144"
      by (simp add: shift_indices_def len)
    have IH: "concat (uploads (quads_tri_loop ?mc' n' ?ix')) =
                for_ii (B (f + 4096)) (nat (sint ?mc' div 4))"
    proof (rule "1.IH"(1) [where f = "f + 4096"])
      show "4 \<le>s myCount" by (rule head)
      show "?mc' = myCount - EMU_QUADS_BUFFER_SIZE * 4"
        by (simp add: EMU_QUADS_BUFFER_SIZE_def)
      show "4 \<le>s ?mc'" by (rule True)
      show "n' = (if c_div ?mc' 4 <s EMU_QUADS_BUFFER_SIZE then c_div ?mc' 4
                  else EMU_QUADS_BUFFER_SIZE)"
        by (rule n'_def)
      show "4 \<le> sint ?mc'" using True by (simp add: word_sle_eq)
      show "sint n' = min (sint ?mc' div 4) 1024" by (rule sn')
      show "take (6 * nat (sint n'))
              (shift_indices (n' * 6) (EMU_QUADS_BUFFER_SIZE * 4) indices) =
            for_ii (B (f + 4096)) (nat (sint n'))"
        by (rule take')
      show "1024 < sint ?mc' div 4 \<longrightarrow>
            length (shift_indices (n' * 6) (EMU_QUADS_BUFFER_SIZE * 4) indices) = 6144"
        using len' by simp
    qed
    have split: "nat ?m = 1024 + nat (sint ?mc' div 4)"
      using big by (simp add: mc')
    have unfold: "quads_tri_loop myCount n indices =
        [BufferData GL_ELEMENT_ARRAY_BUFFER (n * 6 * sizeof_GLuint)
           (take (nat (sint (n * 6))) indices) GL_STATIC_DRAW,
         DrawElements GL_TRIANGLES (n * 6) GL_UNSIGNED_INT (BufferOffset 0)] @
        quads_tri_loop ?mc' n' ?ix'"
      using head True
      by (subst quads_tri_loop.simps) (simp add: Let_def n'_def EMU_QUADS_BUFFER_SIZE_def)
    show ?thesis
      unfolding unfold
      by (simp add: uploads_simps IH n6 sn full [symmetric] len split block_add [OF B])
  next
    case False
    then have small: "sint myCount < 4100"
      by (simp add: word_sle_eq mc')
    have stop: "quads_tri_loop ?mc' n indices = []"
      using False by (subst quads_tri_loop.simps) simp
    have sn: "sint n = ?m"
      using "1.prems"(2) small by simp
    have unfold: "quads_tri_loop myCount n indices =
        [BufferData GL_ELEMENT_ARRAY_BUFFER (n * 6 * sizeof_GLuint)
           (take (nat (sint (n * 6))) indices) GL_STATIC_DRAW,
         DrawElements GL_TRIANGLES (n * 6) GL_UNSIGNED_INT (BufferOffset 0)]"
      using head False stop
      by (subst quads_tri_loop.simps) (simp add: Let_def EMU_QUADS_BUFFER_SIZE_def)
    show ?thesis
      unfolding unfold using "1.prems"(3)
      by (simp add: uploads_simps n6 sn)
  qed
qed

subsection \<open>The chunk boundary\<close>

lemma draw_flag_init: "draw_flag (fst (Init GL_TRUE 1)) GL_FILL"
  by (simp add: draw_flag_def Init_def)

text \<open>
  C8. With the chunk capacity \<open>K = EMU_QUADS_BUFFER_SIZE = 1024\<close>, a \<open>GL_QUADS\<close> draw that
  resolves to triangles with \<open>count = 4 * (K + 1)\<close> issues exactly two submissions, both
  indexed triangles, and the indices of the second are the first chunk's index pattern
  raised by \<open>4 * K\<close>. The calls of the draw are, in this order: the fill style forced if a
  face is not filled, the scratch buffer bound, the first chunk of \<open>6 * K\<close> indices uploaded
  into it and drawn from its offset \<open>0\<close>, then the first six entries of that chunk, each
  raised by \<open>4 * K\<close>, uploaded into it and drawn from its offset \<open>0\<close>, the recorded buffer
  bound again, and the face styles restored. So each submission reads the upload that
  directly precedes it. This holds for every \<open>first\<close> and every shading variant.
\<close>

theorem glDrawArrays_chunk_boundary:
  assumes "draw_flag q GL_FILL"
  shows "snd (snd (glDrawArrays q GL_QUADS first (4 * (EMU_QUADS_BUFFER_SIZE + 1)))) =
           (if frontFaceMode q \<noteq> GL_FILL \<or> backFaceMode q \<noteq> GL_FILL
            then [PolygonMode GL_FRONT_AND_BACK GL_FILL] else []) @
           [BindBuffer GL_ELEMENT_ARRAY_BUFFER (quadIndexBuffer q),
            BufferData GL_ELEMENT_ARRAY_BUFFER (EMU_QUADS_BUFFER_SIZE * 6 * sizeof_GLuint)
              (quads_tri_indices q first EMU_QUADS_BUFFER_SIZE) GL_STATIC_DRAW,
            DrawElements GL_TRIANGLES (6 * EMU_QUADS_BUFFER_SIZE) GL_UNSIGNED_INT (BufferOffset 0),
            BufferData GL_ELEMENT_ARRAY_BUFFER (1 * 6 * sizeof_GLuint)
              (map (\<lambda>x. x + 4 * EMU_QUADS_BUFFER_SIZE)
                 (take 6 (quads_tri_indices q first EMU_QUADS_BUFFER_SIZE))) GL_STATIC_DRAW,
            DrawElements GL_TRIANGLES 6 GL_UNSIGNED_INT (BufferOffset 0),
            BindBuffer GL_ELEMENT_ARRAY_BUFFER (elementArrayBuffer q)] @
           (if frontFaceMode q \<noteq> GL_FILL then [PolygonMode GL_FRONT (frontFaceMode q)] else []) @
           (if backFaceMode q \<noteq> GL_FILL then [PolygonMode GL_BACK (backFaceMode q)] else [])
         \<and> submissions (snd (snd (glDrawArrays q GL_QUADS first (4 * (EMU_QUADS_BUFFER_SIZE + 1))))) =
           [DrawElements GL_TRIANGLES (6 * EMU_QUADS_BUFFER_SIZE) GL_UNSIGNED_INT (BufferOffset 0),
            DrawElements GL_TRIANGLES 6 GL_UNSIGNED_INT (BufferOffset 0)]
         \<and> uploads (snd (snd (glDrawArrays q GL_QUADS first (4 * (EMU_QUADS_BUFFER_SIZE + 1))))) =
           [quads_tri_indices q first EMU_QUADS_BUFFER_SIZE,
            map (\<lambda>x. x + 4 * EMU_QUADS_BUFFER_SIZE)
              (take 6 (quads_tri_indices q first EMU_QUADS_BUFFER_SIZE))]
         \<and> length (quads_tri_indices q first EMU_QUADS_BUFFER_SIZE) = 6 * 1024"
proof -
  have len: "length (quads_tri_indices q first 1024) = 6144"
    by (simp add: length_quads_tri_indices)
  have calls: "snd (snd (glDrawArrays q GL_QUADS first 4100)) = draw_triangles q GL_QUADS first 4100"
    using assms by (simp add: glDrawArrays_calls)
  have loop: "quads_tri_loop 4100 1024 (quads_tri_indices q first 1024) =
      [BufferData GL_ELEMENT_ARRAY_BUFFER 24576 (quads_tri_indices q first 1024) GL_STATIC_DRAW,
       DrawElements GL_TRIANGLES 6144 GL_UNSIGNED_INT (BufferOffset 0),
       BufferData GL_ELEMENT_ARRAY_BUFFER 24
         (map (\<lambda>x. x + 4096) (take 6 (quads_tri_indices q first 1024))) GL_STATIC_DRAW,
       DrawElements GL_TRIANGLES 6 GL_UNSIGNED_INT (BufferOffset 0)]"
    by (simp add: quads_tri_loop.simps [of 4100] quads_tri_loop.simps [of 4]
        quads_tri_loop.simps [of "- 4092"] EMU_QUADS_BUFFER_SIZE_def sizeof_GLuint_def
        c_div_def signed_divide_int_def shift_indices_def len word_sless_alt word_sle_eq)
  have tri: "draw_triangles q GL_QUADS first 4100 =
      (if frontFaceMode q \<noteq> GL_FILL \<or> backFaceMode q \<noteq> GL_FILL
       then [PolygonMode GL_FRONT_AND_BACK GL_FILL] else []) @
      [BindBuffer GL_ELEMENT_ARRAY_BUFFER (quadIndexBuffer q)] @
      quads_tri_loop 4100 1024 (quads_tri_indices q first 1024) @
      [BindBuffer GL_ELEMENT_ARRAY_BUFFER (elementArrayBuffer q)] @
      (if frontFaceMode q \<noteq> GL_FILL then [PolygonMode GL_FRONT (frontFaceMode q)] else []) @
      (if backFaceMode q \<noteq> GL_FILL then [PolygonMode GL_BACK (backFaceMode q)] else [])"
    by (simp add: draw_triangles_def mask_count_def EMU_QUADS_BUFFER_SIZE_def
        c_div_def signed_divide_int_def gl_tokens)
  have trace: "snd (snd (glDrawArrays q GL_QUADS first 4100)) =
      (if frontFaceMode q \<noteq> GL_FILL \<or> backFaceMode q \<noteq> GL_FILL
       then [PolygonMode GL_FRONT_AND_BACK GL_FILL] else []) @
      [BindBuffer GL_ELEMENT_ARRAY_BUFFER (quadIndexBuffer q),
       BufferData GL_ELEMENT_ARRAY_BUFFER 24576 (quads_tri_indices q first 1024) GL_STATIC_DRAW,
       DrawElements GL_TRIANGLES 6144 GL_UNSIGNED_INT (BufferOffset 0),
       BufferData GL_ELEMENT_ARRAY_BUFFER 24
         (map (\<lambda>x. x + 4096) (take 6 (quads_tri_indices q first 1024))) GL_STATIC_DRAW,
       DrawElements GL_TRIANGLES 6 GL_UNSIGNED_INT (BufferOffset 0),
       BindBuffer GL_ELEMENT_ARRAY_BUFFER (elementArrayBuffer q)] @
      (if frontFaceMode q \<noteq> GL_FILL then [PolygonMode GL_FRONT (frontFaceMode q)] else []) @
      (if backFaceMode q \<noteq> GL_FILL then [PolygonMode GL_BACK (backFaceMode q)] else [])"
    by (simp only: calls tri loop append.simps)
  have first_conj: "snd (snd (glDrawArrays q GL_QUADS first (4 * (EMU_QUADS_BUFFER_SIZE + 1)))) =
           (if frontFaceMode q \<noteq> GL_FILL \<or> backFaceMode q \<noteq> GL_FILL
            then [PolygonMode GL_FRONT_AND_BACK GL_FILL] else []) @
           [BindBuffer GL_ELEMENT_ARRAY_BUFFER (quadIndexBuffer q),
            BufferData GL_ELEMENT_ARRAY_BUFFER (EMU_QUADS_BUFFER_SIZE * 6 * sizeof_GLuint)
              (quads_tri_indices q first EMU_QUADS_BUFFER_SIZE) GL_STATIC_DRAW,
            DrawElements GL_TRIANGLES (6 * EMU_QUADS_BUFFER_SIZE) GL_UNSIGNED_INT (BufferOffset 0),
            BufferData GL_ELEMENT_ARRAY_BUFFER (1 * 6 * sizeof_GLuint)
              (map (\<lambda>x. x + 4 * EMU_QUADS_BUFFER_SIZE)
                 (take 6 (quads_tri_indices q first EMU_QUADS_BUFFER_SIZE))) GL_STATIC_DRAW,
            DrawElements GL_TRIANGLES 6 GL_UNSIGNED_INT (BufferOffset 0),
            BindBuffer GL_ELEMENT_ARRAY_BUFFER (elementArrayBuffer q)] @
           (if frontFaceMode q \<noteq> GL_FILL then [PolygonMode GL_FRONT (frontFaceMode q)] else []) @
           (if backFaceMode q \<noteq> GL_FILL then [PolygonMode GL_BACK (backFaceMode q)] else [])"
    by (simp add: EMU_QUADS_BUFFER_SIZE_def sizeof_GLuint_def trace)
  have rest: "submissions (snd (snd (glDrawArrays q GL_QUADS first (4 * (EMU_QUADS_BUFFER_SIZE + 1))))) =
           [DrawElements GL_TRIANGLES (6 * EMU_QUADS_BUFFER_SIZE) GL_UNSIGNED_INT (BufferOffset 0),
            DrawElements GL_TRIANGLES 6 GL_UNSIGNED_INT (BufferOffset 0)]
         \<and> uploads (snd (snd (glDrawArrays q GL_QUADS first (4 * (EMU_QUADS_BUFFER_SIZE + 1))))) =
           [quads_tri_indices q first EMU_QUADS_BUFFER_SIZE,
            map (\<lambda>x. x + 4 * EMU_QUADS_BUFFER_SIZE)
              (take 6 (quads_tri_indices q first EMU_QUADS_BUFFER_SIZE))]
         \<and> length (quads_tri_indices q first EMU_QUADS_BUFFER_SIZE) = 6 * 1024"
    by (simp add: EMU_QUADS_BUFFER_SIZE_def calls tri loop len submissions_simps uploads_simps)
  from first_conj rest show ?thesis
    by (rule conjI)
qed

theorem glDrawArrays_chunk_boundary_witness:
  "draw_flag (fst (Init GL_TRUE 1)) GL_FILL
   \<and> snd (snd (glDrawArrays (fst (Init GL_TRUE 1)) GL_QUADS 0 (4 * (EMU_QUADS_BUFFER_SIZE + 1)))) =
       [BindBuffer GL_ELEMENT_ARRAY_BUFFER 1,
        BufferData GL_ELEMENT_ARRAY_BUFFER 24576
          (quads_tri_indices (fst (Init GL_TRUE 1)) 0 1024) GL_STATIC_DRAW,
        DrawElements GL_TRIANGLES 6144 GL_UNSIGNED_INT (BufferOffset 0),
        BufferData GL_ELEMENT_ARRAY_BUFFER 24 [4096, 4097, 4098, 4099, 4096, 4098] GL_STATIC_DRAW,
        DrawElements GL_TRIANGLES 6 GL_UNSIGNED_INT (BufferOffset 0),
        BindBuffer GL_ELEMENT_ARRAY_BUFFER 0]
   \<and> take 6 (quads_tri_indices (fst (Init GL_TRUE 1)) 0 1024) = [0, 1, 2, 3, 0, 2]
   \<and> length (quads_tri_indices (fst (Init GL_TRUE 1)) 0 1024) = 6144"
proof -
  let ?q = "fst (Init GL_TRUE 1)"
  have fields: "frontFaceMode ?q = GL_FILL" "backFaceMode ?q = GL_FILL"
    "quadIndexBuffer ?q = 1" "elementArrayBuffer ?q = 0"
    by (simp_all add: Init_def)
  have smooth: "shadeMode ?q \<noteq> GL_FLAT"
    by (simp add: Init_def gl_tokens)
  have "quads_tri_indices ?q 0 1024 = for_ii (quads_tri_smooth 0) 1024"
    using smooth by (simp add: quads_tri_indices_def)
  moreover have "take (6 * 1) (for_ii (quads_tri_smooth 0) 1024) = for_ii (quads_tri_smooth 0) 1"
    using block_body_quads_tri(1) by (rule block_take) simp
  moreover have "for_ii (quads_tri_smooth 0) (Suc 0) = [0, 1, 2, 3, 0, 2]"
    by (simp add: quads_tri_smooth_def)
  ultimately have first6: "take 6 (quads_tri_indices ?q 0 1024) = [0, 1, 2, 3, 0, 2]"
    by simp
  show ?thesis
    using draw_flag_init glDrawArrays_chunk_boundary [OF draw_flag_init, of 0]
    by (simp add: fields first6 EMU_QUADS_BUFFER_SIZE_def sizeof_GLuint_def)
qed

subsection \<open>Quads into triangles\<close>

lemma quads_tri_draw_uploads:
  assumes B: "block_body 6 4 B"
    and gen: "\<And>n. quads_tri_indices q first n = for_ii (B first) (unat n)"
    and count: "4 \<le>s count"
  shows "concat (uploads (draw_triangles q GL_QUADS first count)) =
           for_ii (B first) (nat (sint count) div 4)"
proof -
  define myCount where "myCount = mask_count GL_QUADS count"
  define n where "n = (if c_div myCount 4 <s EMU_QUADS_BUFFER_SIZE
                       then c_div myCount 4 else EMU_QUADS_BUFFER_SIZE)"
  have c: "4 \<le> sint count"
    using count by (simp add: word_sle_eq)
  have smc: "sint myCount = 4 * (sint count div 4)"
    using c by (simp add: myCount_def sint_mask_count_quads)
  have mc4: "4 \<le> sint myCount"
    using c unfolding smc by arith
  have sn: "sint n = min (sint myCount div 4) 1024"
    unfolding n_def using mc4 by (intro sint_quads_n) simp
  have n_nonneg: "0 \<le> sint n"
    using mc4 by (simp add: sn)
  have un: "unat n = nat (sint n)"
    using n_nonneg by (rule unat32_nonneg)
  have len: "length (quads_tri_indices q first n) = 6 * nat (sint n)"
    by (simp add: length_quads_tri_indices un)
  have loop: "concat (uploads (quads_tri_loop myCount n (quads_tri_indices q first n))) =
                for_ii (B first) (nat (sint myCount div 4))"
  proof (rule quads_tri_loop_uploads [OF B mc4 sn])
    show "take (6 * nat (sint n)) (quads_tri_indices q first n) = for_ii (B first) (nat (sint n))"
      using len by (simp add: gen un)
    show "1024 < sint myCount div 4 \<longrightarrow> length (quads_tri_indices q first n) = 6144"
      using len by (simp add: sn)
  qed
  have m: "nat (sint myCount div 4) = nat (sint count) div 4"
    using c by (simp add: smc nat_div_distrib)
  have "GL_QUADS \<noteq> GL_QUAD_STRIP"
    by (simp add: gl_tokens)
  then have "uploads (draw_triangles q GL_QUADS first count) =
      uploads (quads_tri_loop myCount n (quads_tri_indices q first n))"
    by (simp add: draw_triangles_def Let_def uploads_simps myCount_def n_def)
  then show ?thesis
    by (simp add: loop m)
qed

lemma quads_smooth_0_8:
  assumes "draw_flag q GL_FILL" and "shadeMode q \<noteq> GL_FLAT"
  shows "uploads (snd (snd (glDrawArrays q GL_QUADS 0 8))) =
           [[0, 1, 2, 3, 0, 2, 4, 5, 6, 7, 4, 6]]"
    and "submissions (snd (snd (glDrawArrays q GL_QUADS 0 8))) =
           [DrawElements GL_TRIANGLES 12 GL_UNSIGNED_INT (BufferOffset 0)]"
proof -
  have gen: "quads_tri_indices q first n = for_ii (quads_tri_smooth first) (unat n)" for first n
    using assms(2) by (simp add: quads_tri_indices_def)
  have calls8: "snd (snd (glDrawArrays q GL_QUADS 0 8)) = draw_triangles q GL_QUADS 0 8"
    using assms(1) by (simp add: glDrawArrays_calls)
  have two: "for_ii (quads_tri_smooth 0) (Suc (Suc 0)) = [0, 1, 2, 3, 0, 2, 4, 5, 6, 7, 4, 6]"
    by (simp add: quads_tri_smooth_def)
  have ix8: "quads_tri_indices q 0 2 = [0, 1, 2, 3, 0, 2, 4, 5, 6, 7, 4, 6]"
  proof -
    have "unat (2 :: GLsizei) = Suc (Suc 0)" by simp
    then show ?thesis by (simp only: gen two)
  qed
  have loop8: "quads_tri_loop 8 2 (quads_tri_indices q 0 2) =
      [BufferData GL_ELEMENT_ARRAY_BUFFER 48 [0, 1, 2, 3, 0, 2, 4, 5, 6, 7, 4, 6] GL_STATIC_DRAW,
       DrawElements GL_TRIANGLES 12 GL_UNSIGNED_INT (BufferOffset 0)]"
    by (simp add: quads_tri_loop.simps [of 8] quads_tri_loop.simps [of "- 4088"]
        EMU_QUADS_BUFFER_SIZE_def sizeof_GLuint_def ix8 word_sle_eq)
  show "uploads (snd (snd (glDrawArrays q GL_QUADS 0 8))) =
           [[0, 1, 2, 3, 0, 2, 4, 5, 6, 7, 4, 6]]"
    unfolding calls8
    by (simp add: draw_triangles_def mask_count_def EMU_QUADS_BUFFER_SIZE_def
        c_div_def signed_divide_int_def gl_tokens loop8 uploads_simps word_sless_alt)
  show "submissions (snd (snd (glDrawArrays q GL_QUADS 0 8))) =
           [DrawElements GL_TRIANGLES 12 GL_UNSIGNED_INT (BufferOffset 0)]"
    unfolding calls8
    by (simp add: draw_triangles_def mask_count_def EMU_QUADS_BUFFER_SIZE_def
        c_div_def signed_divide_int_def gl_tokens loop8 submissions_simps word_sless_alt)
qed

text \<open>
  C1. The claim is that a smooth-shaded \<open>GL_QUADS\<close> draw that resolves to triangles turns
  each quad \<open>v0, v1, v2, v3\<close> into the six indices \<open>(v0, v1, v2, v0, v2, v3)\<close>, and that
  \<open>draw(QUADS, 0, 8)\<close> submits \<open>[0,1,2,0,2,3,4,5,6,4,6,7]\<close>. The source writes the second
  triangle as \<open>(v3, v0, v2)\<close>: on the freshly initialised object the uploaded index data is
  \<open>[0,1,2,3,0,2,4,5,6,7,4,6]\<close>, not the claimed sequence.
\<close>

theorem glDrawArrays_quads_smooth_counterexample:
  "draw_flag (fst (Init GL_TRUE 1)) GL_FILL
   \<and> shadeMode (fst (Init GL_TRUE 1)) \<noteq> GL_FLAT
   \<and> uploads (snd (snd (glDrawArrays (fst (Init GL_TRUE 1)) GL_QUADS 0 8)))
       \<noteq> [[0, 1, 2, 0, 2, 3, 4, 5, 6, 4, 6, 7]]"
proof -
  have h1: "draw_flag (fst (Init GL_TRUE 1)) GL_FILL"
    by (rule draw_flag_init)
  have h2: "shadeMode (fst (Init GL_TRUE 1)) \<noteq> GL_FLAT"
    by (simp add: Init_def gl_tokens)
  show ?thesis
    using h1 h2 by (simp add: quads_smooth_0_8 [OF h1 h2])
qed

text \<open>
  C1, as the code has it. For every state that resolves to triangles with a shade mode other
  than \<open>GL_FLAT\<close>, every \<open>first\<close> and every \<open>count\<close> of at least four, the index data
  uploaded by a \<open>GL_QUADS\<close> draw, chunk after chunk, is the six indices
  \<open>(v0, v1, v2, v3, v0, v2)\<close> for each of the \<open>count div 4\<close> quads in draw order, where
  \<open>v0 = first + 4 * i\<close>. In particular \<open>draw(QUADS, 0, 8)\<close> issues exactly one
  indexed-triangle submission, with the index data \<open>[0,1,2,3,0,2,4,5,6,7,4,6]\<close>.
\<close>

theorem glDrawArrays_quads_smooth:
  assumes "draw_flag q GL_FILL" and "shadeMode q \<noteq> GL_FLAT" and "4 \<le>s count"
  shows "concat (uploads (snd (snd (glDrawArrays q GL_QUADS first count)))) =
           concat (map (\<lambda>i. [first + of_nat i * 4 + 0, first + of_nat i * 4 + 1,
                               first + of_nat i * 4 + 2, first + of_nat i * 4 + 3,
                               first + of_nat i * 4 + 0, first + of_nat i * 4 + 2])
                     [0..<nat (sint count) div 4])
         \<and> submissions (snd (snd (glDrawArrays q GL_QUADS 0 8))) =
             [DrawElements GL_TRIANGLES 12 GL_UNSIGNED_INT (BufferOffset 0)]
         \<and> uploads (snd (snd (glDrawArrays q GL_QUADS 0 8))) =
             [[0, 1, 2, 3, 0, 2, 4, 5, 6, 7, 4, 6]]"
proof -
  have gen: "quads_tri_indices q first n = for_ii (quads_tri_smooth first) (unat n)" for first n
    using assms(2) by (simp add: quads_tri_indices_def)
  have calls: "snd (snd (glDrawArrays q GL_QUADS first count)) = draw_triangles q GL_QUADS first count"
    using assms(1,3) by (simp add: glDrawArrays_calls)
  have general: "concat (uploads (draw_triangles q GL_QUADS first count)) =
      for_ii (quads_tri_smooth first) (nat (sint count) div 4)"
    using block_body_quads_tri(1) gen assms(3) by (rule quads_tri_draw_uploads)
  show ?thesis
    by (simp add: calls general quads_smooth_0_8 [OF assms(1,2)] for_ii_concat
        quads_tri_smooth_def)
qed

theorem glDrawArrays_quads_smooth_witness:
  "draw_flag (fst (Init GL_TRUE 1)) GL_FILL \<and> shadeMode (fst (Init GL_TRUE 1)) \<noteq> GL_FLAT
   \<and> (4 :: GLsizei) \<le>s 8
   \<and> concat (uploads (snd (snd (glDrawArrays (fst (Init GL_TRUE 1)) GL_QUADS 0 8)))) =
       [0, 1, 2, 3, 0, 2, 4, 5, 6, 7, 4, 6]
   \<and> submissions (snd (snd (glDrawArrays (fst (Init GL_TRUE 1)) GL_QUADS 0 8))) =
       [DrawElements GL_TRIANGLES 12 GL_UNSIGNED_INT (BufferOffset 0)]
   \<and> uploads (snd (snd (glDrawArrays (fst (Init GL_TRUE 1)) GL_QUADS 0 8))) =
       [[0, 1, 2, 3, 0, 2, 4, 5, 6, 7, 4, 6]]"
proof -
  have h1: "draw_flag (fst (Init GL_TRUE 1)) GL_FILL"
    by (rule draw_flag_init)
  have h2: "shadeMode (fst (Init GL_TRUE 1)) \<noteq> GL_FLAT"
    by (simp add: Init_def gl_tokens)
  have h3: "(4 :: GLsizei) \<le>s 8"
    by simp
  show ?thesis
    using h1 h2 h3 glDrawArrays_quads_smooth [OF h1 h2 h3, of 0] by simp
qed

subsection \<open>Quad strips into triangles\<close>

lemma sint_strip_n:
  assumes "0 \<le> sint mc"
  shows "sint (if c_div mc 2 - 1 <s EMU_QUADS_BUFFER_SIZE then c_div mc 2 - 1
               else EMU_QUADS_BUFFER_SIZE)
          = min (sint mc div 2 - 1) 1024"
proof -
  have d: "sint (c_div mc 2) = sint mc div 2"
    using assms by (rule sint_c_div2)
  have "sint (c_div mc 2 - 1) = sint (c_div mc 2) - sint (1 :: 32 word)"
    using assms sint_lt [of mc] by (intro sint32_sub) (simp_all add: d)
  then have "sint (c_div mc 2 - 1) = sint mc div 2 - 1"
    by (simp add: d)
  then show ?thesis
    by (simp add: word_sless_alt EMU_QUADS_BUFFER_SIZE_def)
qed

lemma strip_tri_loop_uploads:
  assumes B: "block_body 6 2 B"
    and "2 \<le> sint mc"
    and "sint n = min (sint mc div 2 - 1) 1024"
    and "take (6 * nat (sint n)) ix = for_ii (B f) (nat (sint n))"
    and "1024 \<le> sint mc div 2 - 1 \<longrightarrow> length ix = 6144"
  shows "concat (uploads (strip_tri_loop mc n ix)) = for_ii (B f) (nat (sint mc div 2 - 1))"
  using assms(2-)
proof (induction mc n ix arbitrary: f rule: strip_tri_loop.induct)
  case (1 myCount n indices)
  let ?S = "sint myCount div 2 - 1"
  let ?mc' = "myCount - 2048"
  have S_nonneg: "0 \<le> ?S"
    using "1.prems"(1) by linarith
  have n_bounds: "0 \<le> sint n" "sint n \<le> 1024"
    using "1.prems"(2) S_nonneg by auto
  have n6: "nat (sint (n * 6)) = 6 * nat (sint n)"
    using n_bounds by (simp add: sint_times6)
  have mc': "sint ?mc' = sint myCount - 2048"
    using "1.prems"(1) by (simp add: sint_sub2048)
  have head: "2 \<le>s myCount"
    using "1.prems"(1) by (simp add: word_sle_eq)
  show ?case
  proof (cases "2 \<le>s ?mc'")
    case True
    then have big: "2050 \<le> sint myCount"
      by (simp add: word_sle_eq mc')
    then have S: "1024 \<le> ?S" by linarith
    define n' where "n' = (if c_div ?mc' 2 - 1 <s EMU_QUADS_BUFFER_SIZE
                           then c_div ?mc' 2 - 1 else EMU_QUADS_BUFFER_SIZE)"
    have sn': "sint n' = min (sint ?mc' div 2 - 1) 1024"
      unfolding n'_def using big by (intro sint_strip_n) (simp add: mc')
    have n'_bounds: "0 \<le> sint n'" "sint n' \<le> 1024"
      using big by (simp_all add: sn' mc')
    have n'6: "nat (sint (n' * 6)) = 6 * nat (sint n')"
      using n'_bounds by (simp add: sint_times6)
    have sn: "nat (sint n) = 1024"
      using "1.prems"(2) S by simp
    have len: "length indices = 6144"
      using "1.prems"(4) S by simp
    have full: "indices = for_ii (B f) 1024"
      using "1.prems"(3) len by (simp add: sn)
    let ?ix' = "shift_indices (n' * 6) (EMU_QUADS_BUFFER_SIZE * 2) indices"
    have k: "nat (sint n') \<le> 1024"
      using n'_bounds by simp
    have take': "take (6 * nat (sint n')) ?ix' = for_ii (B (f + 2048)) (nat (sint n'))"
      unfolding shift_indices_def n'6
      using k by (simp add: full block_length [OF B] block_take [OF B] block_shift [OF B]
          EMU_QUADS_BUFFER_SIZE_def)
    have len': "length ?ix' = 6144"
      by (simp add: shift_indices_def len)
    have IH: "concat (uploads (strip_tri_loop ?mc' n' ?ix')) =
                for_ii (B (f + 2048)) (nat (sint ?mc' div 2 - 1))"
    proof (rule "1.IH"(1) [where f = "f + 2048"])
      show "2 \<le>s myCount" by (rule head)
      show "?mc' = myCount - EMU_QUADS_BUFFER_SIZE * 2"
        by (simp add: EMU_QUADS_BUFFER_SIZE_def)
      show "2 \<le>s ?mc'" by (rule True)
      show "n' = (if c_div ?mc' 2 - 1 <s EMU_QUADS_BUFFER_SIZE then c_div ?mc' 2 - 1
                  else EMU_QUADS_BUFFER_SIZE)"
        by (rule n'_def)
      show "2 \<le> sint ?mc'" using True by (simp add: word_sle_eq)
      show "sint n' = min (sint ?mc' div 2 - 1) 1024" by (rule sn')
      show "take (6 * nat (sint n')) ?ix' = for_ii (B (f + 2048)) (nat (sint n'))"
        by (rule take')
      show "1024 \<le> sint ?mc' div 2 - 1 \<longrightarrow> length ?ix' = 6144"
        using len' by simp
    qed
    have split: "nat ?S = 1024 + nat (sint ?mc' div 2 - 1)"
      using big by (simp add: mc')
    have unfold: "strip_tri_loop myCount n indices =
        [BufferData GL_ELEMENT_ARRAY_BUFFER (n * 6 * sizeof_GLuint)
           (take (nat (sint (n * 6))) indices) GL_STATIC_DRAW,
         DrawElements GL_TRIANGLES (n * 6) GL_UNSIGNED_INT (BufferOffset 0)] @
        strip_tri_loop ?mc' n' ?ix'"
      using head True
      by (subst strip_tri_loop.simps) (simp add: Let_def n'_def EMU_QUADS_BUFFER_SIZE_def)
    show ?thesis
      unfolding unfold
      by (simp add: uploads_simps IH n6 sn full [symmetric] len split block_add [OF B])
  next
    case False
    then have small: "sint myCount < 2050"
      by (simp add: word_sle_eq mc')
    have stop: "strip_tri_loop ?mc' n indices = []"
      using False by (subst strip_tri_loop.simps) simp
    have sn: "sint n = ?S"
      using "1.prems"(2) small by simp
    have unfold: "strip_tri_loop myCount n indices =
        [BufferData GL_ELEMENT_ARRAY_BUFFER (n * 6 * sizeof_GLuint)
           (take (nat (sint (n * 6))) indices) GL_STATIC_DRAW,
         DrawElements GL_TRIANGLES (n * 6) GL_UNSIGNED_INT (BufferOffset 0)]"
      using head False stop
      by (subst strip_tri_loop.simps) (simp add: Let_def EMU_QUADS_BUFFER_SIZE_def)
    show ?thesis
      unfolding unfold using "1.prems"(3)
      by (simp add: uploads_simps n6 sn)
  qed
qed

lemma strip_tri_draw_uploads:
  assumes B: "block_body 6 2 B"
    and gen: "\<And>n. strip_tri_indices q first n = for_ii (B first) (unat n)"
    and count: "4 \<le>s count"
  shows "concat (uploads (draw_triangles q GL_QUAD_STRIP first count)) =
           for_ii (B first) (nat (sint count) div 2 - 1)"
proof -
  define myCount where "myCount = mask_count GL_QUAD_STRIP count"
  define n where "n = (if c_div myCount 2 - 1 <s EMU_QUADS_BUFFER_SIZE
                       then c_div myCount 2 - 1 else EMU_QUADS_BUFFER_SIZE)"
  have c: "4 \<le> sint count"
    using count by (simp add: word_sle_eq)
  have smc: "sint myCount = 2 * (sint count div 2)"
    using c by (simp add: myCount_def sint_mask_count_strip)
  have mc4: "4 \<le> sint myCount"
    using c unfolding smc by arith
  then have mc2: "2 \<le> sint myCount"
    by simp
  have sn: "sint n = min (sint myCount div 2 - 1) 1024"
    unfolding n_def using mc4 by (intro sint_strip_n) simp
  have n_nonneg: "0 \<le> sint n"
    using mc4 by (simp add: sn)
  have un: "unat n = nat (sint n)"
    using n_nonneg by (rule unat32_nonneg)
  have len: "length (strip_tri_indices q first n) = 6 * nat (sint n)"
    by (simp add: length_strip_tri_indices un)
  have loop: "concat (uploads (strip_tri_loop myCount n (strip_tri_indices q first n))) =
                for_ii (B first) (nat (sint myCount div 2 - 1))"
  proof (rule strip_tri_loop_uploads [OF B mc2 sn])
    show "take (6 * nat (sint n)) (strip_tri_indices q first n) = for_ii (B first) (nat (sint n))"
      using len by (simp add: gen un)
    show "1024 \<le> sint myCount div 2 - 1 \<longrightarrow> length (strip_tri_indices q first n) = 6144"
      using len by (simp add: sn)
  qed
  have m: "nat (sint myCount div 2 - 1) = nat (sint count) div 2 - 1"
    using c by (simp add: smc nat_div_distrib nat_diff_distrib)
  have "uploads (draw_triangles q GL_QUAD_STRIP first count) =
      uploads (strip_tri_loop myCount n (strip_tri_indices q first n))"
    by (simp add: draw_triangles_def Let_def uploads_simps myCount_def n_def)
  then show ?thesis
    by (simp add: loop m)
qed

lemma strip_flat_last_0_4:
  assumes "draw_flag q GL_FILL" and "shadeMode q = GL_FLAT"
    and "\<not> gl_quads_follow_provoking_vertex_convention q
         \<or> provokeMode q = GL_LAST_VERTEX_CONVENTION"
  shows "uploads (snd (snd (glDrawArrays q GL_QUAD_STRIP 0 4))) = [[0, 1, 3, 2, 0, 3]]"
    and "submissions (snd (snd (glDrawArrays q GL_QUAD_STRIP 0 4))) =
           [DrawElements GL_TRIANGLES 6 GL_UNSIGNED_INT (BufferOffset 0)]"
proof -
  have gen: "strip_tri_indices q first n = for_ii (strip_tri_flat_last first) (unat n)" for first n
    using assms(2,3) by (auto simp: strip_tri_indices_def)
  have calls4: "snd (snd (glDrawArrays q GL_QUAD_STRIP 0 4)) = draw_triangles q GL_QUAD_STRIP 0 4"
    using assms(1) by (simp add: glDrawArrays_calls)
  have one: "for_ii (strip_tri_flat_last 0) (Suc 0) = [0, 1, 3, 2, 0, 3]"
    by (simp add: strip_tri_flat_last_def)
  have ix4: "strip_tri_indices q 0 1 = [0, 1, 3, 2, 0, 3]"
  proof -
    have "unat (1 :: GLsizei) = Suc 0" by simp
    then show ?thesis by (simp only: gen one)
  qed
  have loop4: "strip_tri_loop 4 1 (strip_tri_indices q 0 1) =
      [BufferData GL_ELEMENT_ARRAY_BUFFER 24 [0, 1, 3, 2, 0, 3] GL_STATIC_DRAW,
       DrawElements GL_TRIANGLES 6 GL_UNSIGNED_INT (BufferOffset 0)]"
    by (simp add: strip_tri_loop.simps [of 4] strip_tri_loop.simps [of "- 2044"]
        EMU_QUADS_BUFFER_SIZE_def sizeof_GLuint_def ix4 word_sle_eq)
  show "uploads (snd (snd (glDrawArrays q GL_QUAD_STRIP 0 4))) = [[0, 1, 3, 2, 0, 3]]"
    unfolding calls4
    by (simp add: draw_triangles_def mask_count_def EMU_QUADS_BUFFER_SIZE_def
        c_div_def signed_divide_int_def gl_tokens loop4 uploads_simps word_sless_alt)
  show "submissions (snd (snd (glDrawArrays q GL_QUAD_STRIP 0 4))) =
           [DrawElements GL_TRIANGLES 6 GL_UNSIGNED_INT (BufferOffset 0)]"
    unfolding calls4
    by (simp add: draw_triangles_def mask_count_def EMU_QUADS_BUFFER_SIZE_def
        c_div_def signed_divide_int_def gl_tokens loop4 submissions_simps word_sless_alt)
qed

lemma flat_init:
  "draw_flag (glShadeModel (fst (Init GL_TRUE 1)) GL_FLAT) GL_FILL"
  "shadeMode (glShadeModel (fst (Init GL_TRUE 1)) GL_FLAT) = GL_FLAT"
  "provokeMode (glShadeModel (fst (Init GL_TRUE 1)) GL_FLAT) = GL_LAST_VERTEX_CONVENTION"
  by (simp_all add: draw_flag_def glShadeModel_def Init_def)

text \<open>
  C2. The claim is that a flat-shaded \<open>GL_QUAD_STRIP\<close> draw under the last-vertex
  convention (or with the convention capability off) turns each strip step \<open>v0, v1, v2, v3\<close>
  into \<open>(v0, v1, v2, v2, v1, v3)\<close>. The source stores \<open>(v0, v1, v3, v2, v0, v3)\<close>, so that
  both triangles end in \<open>v3\<close>: with \<open>glShadeModel(GL_FLAT)\<close> on the freshly initialised
  object, \<open>draw(QUAD_STRIP, 0, 4)\<close> uploads \<open>[0,1,3,2,0,3]\<close>, not \<open>[0,1,2,2,1,3]\<close>.
\<close>

theorem glDrawArrays_strip_flat_last_counterexample:
  "draw_flag (glShadeModel (fst (Init GL_TRUE 1)) GL_FLAT) GL_FILL
   \<and> shadeMode (glShadeModel (fst (Init GL_TRUE 1)) GL_FLAT) = GL_FLAT
   \<and> provokeMode (glShadeModel (fst (Init GL_TRUE 1)) GL_FLAT) = GL_LAST_VERTEX_CONVENTION
   \<and> uploads (snd (snd (glDrawArrays (glShadeModel (fst (Init GL_TRUE 1)) GL_FLAT)
        GL_QUAD_STRIP 0 4))) \<noteq> [[0, 1, 2, 2, 1, 3]]"
proof -
  have "uploads (snd (snd (glDrawArrays (glShadeModel (fst (Init GL_TRUE 1)) GL_FLAT)
        GL_QUAD_STRIP 0 4))) = [[0, 1, 3, 2, 0, 3]]"
    by (rule strip_flat_last_0_4) (simp_all add: flat_init)
  then show ?thesis
    by (simp add: flat_init)
qed

text \<open>
  C2, as the code has it. For every state that resolves to triangles with \<open>GL_FLAT\<close> shading
  and the last-vertex convention (or the convention capability off), every \<open>first\<close> and
  every \<open>count\<close> of at least four, the index data uploaded by a \<open>GL_QUAD_STRIP\<close> draw, chunk
  after chunk, is the six indices \<open>(v0, v1, v3, v2, v0, v3)\<close> for each of the
  \<open>count div 2 - 1\<close> strip steps in draw order, where \<open>v0 = first + 2 * i\<close>.
\<close>

theorem glDrawArrays_strip_flat_last:
  assumes "draw_flag q GL_FILL" and "shadeMode q = GL_FLAT"
    and "\<not> gl_quads_follow_provoking_vertex_convention q
         \<or> provokeMode q = GL_LAST_VERTEX_CONVENTION"
    and "4 \<le>s count"
  shows "concat (uploads (snd (snd (glDrawArrays q GL_QUAD_STRIP first count)))) =
           concat (map (\<lambda>i. [first + of_nat i * 2 + 0, first + of_nat i * 2 + 1,
                               first + of_nat i * 2 + 3, first + of_nat i * 2 + 2,
                               first + of_nat i * 2 + 0, first + of_nat i * 2 + 3])
                     [0..<nat (sint count) div 2 - 1])
         \<and> uploads (snd (snd (glDrawArrays q GL_QUAD_STRIP 0 4))) = [[0, 1, 3, 2, 0, 3]]"
proof -
  have gen: "strip_tri_indices q first n = for_ii (strip_tri_flat_last first) (unat n)" for first n
    using assms(2,3) by (auto simp: strip_tri_indices_def)
  have calls: "snd (snd (glDrawArrays q GL_QUAD_STRIP first count)) =
      draw_triangles q GL_QUAD_STRIP first count"
    using assms(1,4) by (simp add: glDrawArrays_calls)
  have general: "concat (uploads (draw_triangles q GL_QUAD_STRIP first count)) =
      for_ii (strip_tri_flat_last first) (nat (sint count) div 2 - 1)"
    using block_body_strip_tri(2) gen assms(4) by (rule strip_tri_draw_uploads)
  show ?thesis
    by (simp add: calls general strip_flat_last_0_4 [OF assms(1,2,3)] for_ii_concat
        strip_tri_flat_last_def)
qed

theorem glDrawArrays_strip_flat_last_witness:
  "draw_flag (glShadeModel (fst (Init GL_TRUE 1)) GL_FLAT) GL_FILL
   \<and> shadeMode (glShadeModel (fst (Init GL_TRUE 1)) GL_FLAT) = GL_FLAT
   \<and> provokeMode (glShadeModel (fst (Init GL_TRUE 1)) GL_FLAT) = GL_LAST_VERTEX_CONVENTION
   \<and> (4 :: GLsizei) \<le>s 6
   \<and> concat (uploads (snd (snd (glDrawArrays (glShadeModel (fst (Init GL_TRUE 1)) GL_FLAT)
        GL_QUAD_STRIP 0 6)))) = [0, 1, 3, 2, 0, 3, 2, 3, 5, 4, 2, 5]
   \<and> uploads (snd (snd (glDrawArrays (glShadeModel (fst (Init GL_TRUE 1)) GL_FLAT)
        GL_QUAD_STRIP 0 4))) = [[0, 1, 3, 2, 0, 3]]"
proof -
  let ?q = "glShadeModel (fst (Init GL_TRUE 1)) GL_FLAT"
  have h1: "draw_flag ?q GL_FILL" and h2: "shadeMode ?q = GL_FLAT"
    and p: "provokeMode ?q = GL_LAST_VERTEX_CONVENTION"
    by (simp_all add: flat_init)
  have h3: "\<not> gl_quads_follow_provoking_vertex_convention ?q
            \<or> provokeMode ?q = GL_LAST_VERTEX_CONVENTION"
    using p by simp
  have h4: "(4 :: GLsizei) \<le>s 6"
    by simp
  have steps: "[0..<2] = [0, 1 :: nat]"
    by (simp add: numeral_2_eq_2)
  show ?thesis
    using h1 h2 p h4 glDrawArrays_strip_flat_last [OF h1 h2 h3 h4, of 0]
    by (simp add: steps)
qed

subsection \<open>Quad strips into outlines\<close>

lemma length_strip_outline_chunk: "length (strip_outline_chunk f k) = 6 * k + 2"
  by (simp add: strip_outline_chunk_def block_length [OF block_body_lines(2)])

lemma shift_strip_outline_chunk:
  "map (\<lambda>x. x + c) (strip_outline_chunk f k) = strip_outline_chunk (f + c) k"
  by (simp add: strip_outline_chunk_def block_shift [OF block_body_lines(2)] algebra_simps)

lemma take_strip_outline_chunk:
  assumes "k \<le> n"
  shows "take (6 * k + 2) (strip_outline_chunk f n) = strip_outline_chunk f k"
proof -
  have "take (6 * k) (for_ii (strip_line_other f) n) = for_ii (strip_line_other f) k"
    using block_body_lines(2) assms by (rule block_take)
  then show ?thesis
    by (simp add: strip_outline_chunk_def)
qed

lemma sint_times6_plus2:
  assumes "0 \<le> sint (n :: 32 word)" "sint n \<le> 1024"
  shows "sint (n * 6 + 2) = sint n * 6 + 2"
proof -
  have m: "sint (n * 6) = sint n * 6"
    using assms by (rule sint_times6)
  have "sint (n * 6 + 2) = sint (n * 6) + sint (2 :: 32 word)"
    using assms by (intro sint32_add) (simp_all add: m)
  then show ?thesis by (simp add: m)
qed

lemma take_shift_indices:
  "nat (sint k) \<le> length ix \<Longrightarrow>
   take (nat (sint k)) (shift_indices k c ix) = map (\<lambda>x. x + c) (take (nat (sint k)) ix)"
  by (simp add: shift_indices_def)

lemma length_shift_indices: "length (shift_indices k c ix) = length ix"
  by (simp add: shift_indices_def)

lemma strip_line_loop_uploads:
  assumes "2 \<le> sint mc"
    and "sint n = min (sint mc div 2 - 1) 1024"
    and "take (6 * nat (sint n) + 2) ix = strip_outline_chunk f (nat (sint n))"
    and "1024 \<le> sint mc div 2 - 1 \<longrightarrow> length ix = 6146"
  shows "uploads (strip_line_loop mc n ix) =
           map (\<lambda>j. strip_outline_chunk (f + 2048 * of_nat j)
                        (min 1024 (nat (sint mc div 2 - 1) - 1024 * j)))
             [0..<nat (sint mc div 2 - 1) div 1024 + 1]"
  using assms
proof (induction mc n ix arbitrary: f rule: strip_line_loop.induct)
  case (1 myCount n indices)
  let ?S = "sint myCount div 2 - 1"
  let ?mc' = "myCount - 2048"
  have S_nonneg: "0 \<le> ?S"
    using "1.prems"(1) by linarith
  have n_bounds: "0 \<le> sint n" "sint n \<le> 1024"
    using "1.prems"(2) S_nonneg by auto
  have n6: "nat (sint (n * 6 + 2)) = 6 * nat (sint n) + 2"
    using n_bounds by (simp add: sint_times6_plus2 nat_add_distrib nat_mult_distrib)
  have mc': "sint ?mc' = sint myCount - 2048"
    using "1.prems"(1) by (simp add: sint_sub2048)
  have head: "2 \<le>s myCount"
    using "1.prems"(1) by (simp add: word_sle_eq)
  show ?case
  proof (cases "2 \<le>s ?mc'")
    case True
    then have big: "2050 \<le> sint myCount"
      by (simp add: word_sle_eq mc')
    then have S: "1024 \<le> ?S" by linarith
    define n' where "n' = (if c_div ?mc' 2 - 1 <s EMU_QUADS_BUFFER_SIZE
                           then c_div ?mc' 2 - 1 else EMU_QUADS_BUFFER_SIZE)"
    have sn': "sint n' = min (sint ?mc' div 2 - 1) 1024"
      unfolding n'_def using big by (intro sint_strip_n) (simp add: mc')
    have n'_bounds: "0 \<le> sint n'" "sint n' \<le> 1024"
      using big by (simp_all add: sn' mc')
    have n'6: "nat (sint (n' * 6 + 2)) = 6 * nat (sint n') + 2"
      using n'_bounds by (simp add: sint_times6_plus2 nat_add_distrib nat_mult_distrib)
    have sn: "nat (sint n) = 1024"
      using "1.prems"(2) S by simp
    have len: "length indices = 6146"
      using "1.prems"(4) S by simp
    have full: "indices = strip_outline_chunk f 1024"
      using "1.prems"(3) len by (simp add: sn)
    let ?ix' = "shift_indices (n' * 6 + 2) (EMU_QUADS_BUFFER_SIZE * 2) indices"
    have k: "nat (sint n') \<le> 1024"
      using n'_bounds by simp
    have take': "take (6 * nat (sint n') + 2) ?ix' =
                   strip_outline_chunk (f + 2048) (nat (sint n'))"
    proof -
      have "nat (sint (n' * 6 + 2)) \<le> length indices"
        using k by (simp add: n'6 len)
      then have "take (nat (sint (n' * 6 + 2))) ?ix' =
          map (\<lambda>x. x + EMU_QUADS_BUFFER_SIZE * 2) (take (nat (sint (n' * 6 + 2))) indices)"
        by (rule take_shift_indices)
      then have "take (6 * nat (sint n') + 2) ?ix' =
          map (\<lambda>x. x + 2048) (take (6 * nat (sint n') + 2) (strip_outline_chunk f 1024))"
        by (simp only: n'6 full) (simp add: EMU_QUADS_BUFFER_SIZE_def)
      also have "\<dots> = map (\<lambda>x. x + 2048) (strip_outline_chunk f (nat (sint n')))"
        by (simp only: take_strip_outline_chunk [OF k])
      also have "\<dots> = strip_outline_chunk (f + 2048) (nat (sint n'))"
        by (rule shift_strip_outline_chunk)
      finally show ?thesis .
    qed
    have len': "length ?ix' = 6146"
      by (simp add: length_shift_indices len)
    let ?S' = "sint ?mc' div 2 - 1"
    have IH: "uploads (strip_line_loop ?mc' n' ?ix') =
        map (\<lambda>j. strip_outline_chunk (f + 2048 + 2048 * of_nat j)
                     (min 1024 (nat ?S' - 1024 * j)))
          [0..<nat ?S' div 1024 + 1]"
    proof (rule "1.IH"(1) [where f = "f + 2048"])
      show "2 \<le>s myCount" by (rule head)
      show "?mc' = myCount - EMU_QUADS_BUFFER_SIZE * 2"
        by (simp add: EMU_QUADS_BUFFER_SIZE_def)
      show "2 \<le>s ?mc'" by (rule True)
      show "n' = (if c_div ?mc' 2 - 1 <s EMU_QUADS_BUFFER_SIZE then c_div ?mc' 2 - 1
                  else EMU_QUADS_BUFFER_SIZE)"
        by (rule n'_def)
      show "2 \<le> sint ?mc'" using True by (simp add: word_sle_eq)
      show "sint n' = min ?S' 1024" by (rule sn')
      show "take (6 * nat (sint n') + 2) ?ix' = strip_outline_chunk (f + 2048) (nat (sint n'))"
        by (rule take')
      show "1024 \<le> ?S' \<longrightarrow> length ?ix' = 6146"
        using len' by simp
    qed
    have split: "nat ?S = 1024 + nat ?S'"
      using big by (simp add: mc')
    have range: "[0..<nat ?S div 1024 + 1] = 0 # map Suc [0..<nat ?S' div 1024 + 1]"
    proof -
      have "nat ?S div 1024 = Suc (nat ?S' div 1024)"
        by (simp add: split)
      then show ?thesis
        by (simp only:) (simp add: upt_conv_Cons map_Suc_upt del: upt_Suc)
    qed
    have unfold: "strip_line_loop myCount n indices =
        [DrawElements GL_LINES (n * 6 + 2) GL_UNSIGNED_INT
           (ClientArray (take (nat (sint (n * 6 + 2))) indices))] @
        strip_line_loop ?mc' n' ?ix'"
      using head True
      by (subst strip_line_loop.simps) (simp add: Let_def n'_def EMU_QUADS_BUFFER_SIZE_def)
    have first_chunk: "take (nat (sint (n * 6 + 2))) indices = strip_outline_chunk f 1024"
      using len by (simp add: n6 sn full [symmetric])
    let ?h = "\<lambda>j. strip_outline_chunk (f + 2048 * of_nat j) (min 1024 (nat ?S - 1024 * j))"
    have "uploads (strip_line_loop myCount n indices) =
        strip_outline_chunk f 1024 # uploads (strip_line_loop ?mc' n' ?ix')"
      by (simp only: unfold uploads_simps upload.simps option.case append.simps first_chunk)
    also have "\<dots> = strip_outline_chunk f 1024 #
        map (\<lambda>j. strip_outline_chunk (f + 2048 + 2048 * of_nat j)
                     (min 1024 (nat ?S' - 1024 * j)))
          [0..<nat ?S' div 1024 + 1]"
      by (simp only: IH)
    also have "\<dots> = map ?h (0 # map Suc [0..<nat ?S' div 1024 + 1])"
      by (simp add: split comp_def algebra_simps del: upt_Suc)
    finally show ?thesis
      by (simp only: range)
  next
    case False
    then have small: "sint myCount < 2050"
      by (simp add: word_sle_eq mc')
    have stop: "strip_line_loop ?mc' n indices = []"
      using False by (subst strip_line_loop.simps) simp
    have sn: "sint n = ?S"
      using "1.prems"(2) small by simp
    have S_small: "nat ?S < 1024"
      using small by linarith
    have unfold: "strip_line_loop myCount n indices =
        [DrawElements GL_LINES (n * 6 + 2) GL_UNSIGNED_INT
           (ClientArray (take (nat (sint (n * 6 + 2))) indices))]"
      using head False stop
      by (subst strip_line_loop.simps) (simp add: Let_def EMU_QUADS_BUFFER_SIZE_def)
    show ?thesis
      unfolding unfold using "1.prems"(3) S_small
      by (simp add: uploads_simps n6 sn)
  qed
qed

lemma strip_line_draw_uploads:
  assumes other: "\<not> (shadeMode q = GL_FLAT \<and> gl_quads_follow_provoking_vertex_convention q
                      \<and> provokeMode q = GL_FIRST_VERTEX_CONVENTION)"
    and count: "4 \<le>s count"
  shows "uploads (draw_lines q GL_QUAD_STRIP first count) =
           map (\<lambda>j. strip_outline_chunk (first + 2048 * of_nat j)
                        (min 1024 (nat (sint count) div 2 - 1 - 1024 * j)))
             [0..<(nat (sint count) div 2 - 1) div 1024 + 1]"
proof -
  define myCount where "myCount = mask_count GL_QUAD_STRIP count"
  define n where "n = (if c_div myCount 2 - 1 <s EMU_QUADS_BUFFER_SIZE
                       then c_div myCount 2 - 1 else EMU_QUADS_BUFFER_SIZE)"
  have c: "4 \<le> sint count"
    using count by (simp add: word_sle_eq)
  have smc: "sint myCount = 2 * (sint count div 2)"
    using c by (simp add: myCount_def sint_mask_count_strip)
  have mc4: "4 \<le> sint myCount"
    using c unfolding smc by arith
  then have mc2: "2 \<le> sint myCount"
    by simp
  have sn: "sint n = min (sint myCount div 2 - 1) 1024"
    unfolding n_def using mc4 by (intro sint_strip_n) simp
  have n_nonneg: "0 \<le> sint n"
    using mc4 by (simp add: sn)
  have un: "unat n = nat (sint n)"
    using n_nonneg by (rule unat32_nonneg)
  have gen: "strip_line_indices q first n = strip_outline_chunk first (nat (sint n))"
    using other by (auto simp: strip_line_indices_def strip_outline_chunk_def un)
  have len: "length (strip_line_indices q first n) = 6 * nat (sint n) + 2"
    by (simp add: gen length_strip_outline_chunk)
  have loop: "uploads (strip_line_loop myCount n (strip_line_indices q first n)) =
      map (\<lambda>j. strip_outline_chunk (first + 2048 * of_nat j)
                   (min 1024 (nat (sint myCount div 2 - 1) - 1024 * j)))
        [0..<nat (sint myCount div 2 - 1) div 1024 + 1]"
  proof (rule strip_line_loop_uploads [OF mc2 sn])
    show "take (6 * nat (sint n) + 2) (strip_line_indices q first n) =
            strip_outline_chunk first (nat (sint n))"
      using len by (simp add: gen)
    show "1024 \<le> sint myCount div 2 - 1 \<longrightarrow> length (strip_line_indices q first n) = 6146"
      using len by (simp add: sn)
  qed
  have m: "nat (sint myCount div 2 - 1) = nat (sint count) div 2 - 1"
    using c by (simp add: smc nat_div_distrib nat_diff_distrib)
  have "uploads (draw_lines q GL_QUAD_STRIP first count) =
      uploads (strip_line_loop myCount n (strip_line_indices q first n))"
    by (simp add: draw_lines_def Let_def uploads_simps myCount_def n_def)
  then show ?thesis
    by (simp only: loop m)
qed

lemma strip_outline_0_4:
  assumes "\<not> draw_flag q GL_FILL" and "draw_flag q GL_LINE"
    and "\<not> (shadeMode q = GL_FLAT \<and> gl_quads_follow_provoking_vertex_convention q
            \<and> provokeMode q = GL_FIRST_VERTEX_CONVENTION)"
  shows "submissions (snd (snd (glDrawArrays q GL_QUAD_STRIP 0 4))) =
           [DrawElements GL_LINES 8 GL_UNSIGNED_INT (ClientArray [0, 1, 0, 2, 2, 3, 1, 3])]"
proof -
  have calls4: "snd (snd (glDrawArrays q GL_QUAD_STRIP 0 4)) = draw_lines q GL_QUAD_STRIP 0 4"
    using assms(1,2) by (simp add: glDrawArrays_calls)
  have ix4: "strip_line_indices q 0 1 = [0, 1, 0, 2, 2, 3, 1, 3]"
    using assms(3) by (auto simp: strip_line_indices_def strip_line_other_def)
  have loop4: "strip_line_loop 4 1 (strip_line_indices q 0 1) =
      [DrawElements GL_LINES 8 GL_UNSIGNED_INT (ClientArray [0, 1, 0, 2, 2, 3, 1, 3])]"
    by (simp add: strip_line_loop.simps [of 4] strip_line_loop.simps [of "- 2044"]
        EMU_QUADS_BUFFER_SIZE_def ix4 word_sle_eq)
  show ?thesis
    unfolding calls4
    by (simp add: draw_lines_def mask_count_def EMU_QUADS_BUFFER_SIZE_def
        c_div_def signed_divide_int_def gl_tokens loop4 submissions_simps word_sless_alt)
qed

lemma line_init:
  "\<not> draw_flag (glPolygonMode (fst (Init GL_TRUE 1)) GL_FRONT_AND_BACK GL_LINE) GL_FILL"
  "draw_flag (glPolygonMode (fst (Init GL_TRUE 1)) GL_FRONT_AND_BACK GL_LINE) GL_LINE"
  "shadeMode (glPolygonMode (fst (Init GL_TRUE 1)) GL_FRONT_AND_BACK GL_LINE) = GL_SMOOTH"
  "provokeMode (glPolygonMode (fst (Init GL_TRUE 1)) GL_FRONT_AND_BACK GL_LINE)
     = GL_LAST_VERTEX_CONVENTION"
  by (simp_all add: draw_flag_def glPolygonMode_def Init_def gl_tokens)

text \<open>
  C5. The claim is that the line indices of a \<open>GL_QUAD_STRIP\<close> outline under smooth shading
  or the last-vertex convention are the seed pair \<open>(v0, v1)\<close>, then per strip step the three
  edges \<open>(v0, v2, v2, v3, v1, v3)\<close>, and then a closing pair appended after the final step.
  The source appends nothing after the loop in this variant (only the first-vertex variant
  does): with both faces set to \<open>GL_LINE\<close> on the freshly initialised object,
  \<open>draw(QUAD_STRIP, 0, 4)\<close> submits the eight indices \<open>[0,1, 0,2,2,3,1,3]\<close>, the seed and one
  step, and no sequence of ten indices that extends them by a pair.
\<close>

theorem glDrawArrays_strip_outline_counterexample:
  "shadeMode (glPolygonMode (fst (Init GL_TRUE 1)) GL_FRONT_AND_BACK GL_LINE) = GL_SMOOTH
   \<and> provokeMode (glPolygonMode (fst (Init GL_TRUE 1)) GL_FRONT_AND_BACK GL_LINE)
       = GL_LAST_VERTEX_CONVENTION
   \<and> submissions (snd (snd (glDrawArrays
         (glPolygonMode (fst (Init GL_TRUE 1)) GL_FRONT_AND_BACK GL_LINE) GL_QUAD_STRIP 0 4))) =
       [DrawElements GL_LINES 8 GL_UNSIGNED_INT (ClientArray ([0, 1] @ [0, 2, 2, 3, 1, 3]))]
   \<and> \<not> (\<exists>a b. submissions (snd (snd (glDrawArrays
         (glPolygonMode (fst (Init GL_TRUE 1)) GL_FRONT_AND_BACK GL_LINE) GL_QUAD_STRIP 0 4))) =
       [DrawElements GL_LINES 10 GL_UNSIGNED_INT
          (ClientArray ([0, 1] @ [0, 2, 2, 3, 1, 3] @ [a, b]))])"
proof -
  let ?q = "glPolygonMode (fst (Init GL_TRUE 1)) GL_FRONT_AND_BACK GL_LINE"
  have other: "\<not> (shadeMode ?q = GL_FLAT \<and> gl_quads_follow_provoking_vertex_convention ?q
            \<and> provokeMode ?q = GL_FIRST_VERTEX_CONVENTION)"
    by (simp add: glPolygonMode_def Init_def gl_tokens)
  have "submissions (snd (snd (glDrawArrays ?q GL_QUAD_STRIP 0 4))) =
           [DrawElements GL_LINES 8 GL_UNSIGNED_INT (ClientArray [0, 1, 0, 2, 2, 3, 1, 3])]"
    using line_init(1,2) other by (rule strip_outline_0_4)
  then show ?thesis
    by (simp add: line_init)
qed

text \<open>
  C5, as the code has it. For every state that resolves to lines and does not take the
  first-vertex variant (so for smooth shading, for the last-vertex convention, and for the
  convention capability off), every \<open>first\<close> and every \<open>count\<close> of at least four, a
  \<open>GL_QUAD_STRIP\<close> draw of \<open>S = count div 2 - 1\<close> strip steps submits \<open>S div 1024 + 1\<close> index
  sequences. Sequence \<open>j\<close> starts at vertex \<open>a = first + 2048 * j\<close>, covers the next
  \<open>min 1024 (S - 1024 * j)\<close> steps, and consists of the seed pair \<open>(a, a + 1)\<close> followed, per
  step with \<open>v0 = a + 2 * i\<close>, by the three edges \<open>(v0, v2, v2, v3, v1, v3)\<close>, and of nothing
  else: no closing pair follows the final step.
\<close>

theorem glDrawArrays_strip_outline:
  assumes "\<not> draw_flag q GL_FILL" and "draw_flag q GL_LINE"
    and "\<not> (shadeMode q = GL_FLAT \<and> gl_quads_follow_provoking_vertex_convention q
            \<and> provokeMode q = GL_FIRST_VERTEX_CONVENTION)"
    and "4 \<le>s count"
  shows "uploads (snd (snd (glDrawArrays q GL_QUAD_STRIP first count))) =
           map (\<lambda>j. [first + 2048 * of_nat j + 0, first + 2048 * of_nat j + 1] @
                     concat (map (\<lambda>i. [first + 2048 * of_nat j + of_nat i * 2 + 0,
                                        first + 2048 * of_nat j + of_nat i * 2 + 2,
                                        first + 2048 * of_nat j + of_nat i * 2 + 2,
                                        first + 2048 * of_nat j + of_nat i * 2 + 3,
                                        first + 2048 * of_nat j + of_nat i * 2 + 1,
                                        first + 2048 * of_nat j + of_nat i * 2 + 3])
                               [0..<min 1024 (nat (sint count) div 2 - 1 - 1024 * j)]))
             [0..<(nat (sint count) div 2 - 1) div 1024 + 1]
         \<and> submissions (snd (snd (glDrawArrays q GL_QUAD_STRIP 0 4))) =
             [DrawElements GL_LINES 8 GL_UNSIGNED_INT (ClientArray [0, 1, 0, 2, 2, 3, 1, 3])]"
proof -
  have calls: "snd (snd (glDrawArrays q GL_QUAD_STRIP first count)) =
      draw_lines q GL_QUAD_STRIP first count"
    using assms(1,2,4) by (simp add: glDrawArrays_calls)
  have chunk: "strip_outline_chunk a k =
      [a + 0, a + 1] @
      concat (map (\<lambda>i. [a + of_nat i * 2 + 0, a + of_nat i * 2 + 2, a + of_nat i * 2 + 2,
                         a + of_nat i * 2 + 3, a + of_nat i * 2 + 1, a + of_nat i * 2 + 3])
                [0..<k])" for a k
    by (simp add: strip_outline_chunk_def for_ii_concat strip_line_other_def)
  show ?thesis
    unfolding calls strip_line_draw_uploads [OF assms(3,4)] chunk
    using strip_outline_0_4 [OF assms(1,2,3)] by simp
qed

theorem glDrawArrays_strip_outline_witness:
  "\<not> draw_flag (glPolygonMode (fst (Init GL_TRUE 1)) GL_FRONT_AND_BACK GL_LINE) GL_FILL
   \<and> draw_flag (glPolygonMode (fst (Init GL_TRUE 1)) GL_FRONT_AND_BACK GL_LINE) GL_LINE
   \<and> shadeMode (glPolygonMode (fst (Init GL_TRUE 1)) GL_FRONT_AND_BACK GL_LINE) = GL_SMOOTH
   \<and> (4 :: GLsizei) \<le>s 6
   \<and> uploads (snd (snd (glDrawArrays
        (glPolygonMode (fst (Init GL_TRUE 1)) GL_FRONT_AND_BACK GL_LINE) GL_QUAD_STRIP 0 6))) =
       [[0, 1, 0, 2, 2, 3, 1, 3, 2, 4, 4, 5, 3, 5]]
   \<and> submissions (snd (snd (glDrawArrays
        (glPolygonMode (fst (Init GL_TRUE 1)) GL_FRONT_AND_BACK GL_LINE) GL_QUAD_STRIP 0 4))) =
       [DrawElements GL_LINES 8 GL_UNSIGNED_INT (ClientArray [0, 1, 0, 2, 2, 3, 1, 3])]"
proof -
  let ?q = "glPolygonMode (fst (Init GL_TRUE 1)) GL_FRONT_AND_BACK GL_LINE"
  have h3: "\<not> (shadeMode ?q = GL_FLAT \<and> gl_quads_follow_provoking_vertex_convention ?q
            \<and> provokeMode ?q = GL_FIRST_VERTEX_CONVENTION)"
    by (simp add: glPolygonMode_def Init_def gl_tokens)
  have h4: "(4 :: GLsizei) \<le>s 6"
    by simp
  have steps: "[0..<2] = [0, 1 :: nat]"
    by (simp add: numeral_2_eq_2)
  show ?thesis
    using line_init h4 glDrawArrays_strip_outline [OF line_init(1,2) h3 h4, of 0]
    by (simp add: steps)
qed

end
